theory Spec2Isabelle
  imports Main "HOL-Library.Multiset"
begin

section \<open>Python values and exceptions\<close>

text \<open>
  The earring splitter (\<^verbatim>\<open>src/get_earring.py\<close>) and the anchor-point geometry
  (\<^verbatim>\<open>src/compute_points.py\<close>) are embedded as HOL functions. Python integers are
  \<^typ>\<open>int\<close>; \<^verbatim>\<open>//\<close> is floor division, which is \<open>div\<close> on \<^typ>\<open>int\<close>. Every exception
  the embedded code can raise is a value of \<open>py_error\<close>, returned as \<open>Inl\<close>.
\<close>

datatype py_error =
    IndexError
  | TypeError
  | AttributeError
  | AssertionError
  | FileNotFoundError

definition bind_err :: "py_error + 'a \<Rightarrow> ('a \<Rightarrow> py_error + 'b) \<Rightarrow> py_error + 'b" where
  "bind_err m f = (case m of Inl e \<Rightarrow> Inl e | Inr v \<Rightarrow> f v)"

section \<open>compute\_points.py: the crop box and the ear anchor\<close>

text \<open>
  The inner function \<^verbatim>\<open>adjust(start, end, size, min_size)\<close> of \<^verbatim>\<open>adjust_crop_area\<close>.
\<close>

definition adjust :: "int \<Rightarrow> int \<Rightarrow> int \<Rightarrow> int \<Rightarrow> int \<times> int" where
  "adjust start stop sz min_size =
     (if sz < min_size then
        (let extra = min_size - sz
         in (start - extra div 2, stop + (extra - extra div 2)))
      else if sz > min_size then
        (let extra = sz - min_size
         in (start + extra div 2, stop - (extra - extra div 2)))
      else (start, stop))"

text \<open>
  \<^verbatim>\<open>adjust_crop_area(x, y, w, h, min_size=224)\<close> returns \<^verbatim>\<open>(x, y, x_end, y_end)\<close>. It has
  no image argument.
\<close>

definition adjust_crop_area :: "int \<Rightarrow> int \<Rightarrow> int \<Rightarrow> int \<Rightarrow> int \<Rightarrow> int \<times> int \<times> int \<times> int" where
  "adjust_crop_area x y w h min_size =
     (let x_end = x + w;
          y_end = y + h;
          xs = adjust x x_end w min_size;
          ys = adjust y y_end h min_size
      in (fst xs, fst ys, snd xs, snd ys))"

text \<open>The default value of \<^verbatim>\<open>min_size\<close>.\<close>

definition default_min_size :: int where
  "default_min_size = 224"

text \<open>
  \<^verbatim>\<open>int(a + b / 2)\<close> for integers \<open>a\<close> and \<open>b\<close>: the true quotient has denominator two,
  and \<^verbatim>\<open>int\<close> truncates towards zero. The code computes the sum in a 64-bit float, which
  is this exact value as long as the magnitudes stay below \<open>2^53\<close>, as the pixel
  coordinates of a detection box do.
\<close>

definition int_of_half_sum :: "int \<Rightarrow> int \<Rightarrow> int" where
  "int_of_half_sum a b =
     (let n = 2 * a + b in if 0 \<le> n then n div 2 else - ((- n) div 2))"

type_synonym box = "int \<times> int \<times> int \<times> int"

text \<open>
  \<^verbatim>\<open>model_anchor_point(model_path, x, y, w, h)\<close>. The earlobe detector is an opaque
  collaborator: \<open>detect\<close> maps the crop box handed to \<^verbatim>\<open>model_image.crop\<close> (the model
  image is fixed) to the list \<^verbatim>\<open>detected_loc\<close> that \<^verbatim>\<open>Detector.detect\<close> returns for the
  saved crop. The \<^verbatim>\<open>assert\<close> is modelled as it runs without \<^verbatim>\<open>-O\<close>.
\<close>

definition crop_box :: "int \<Rightarrow> int \<Rightarrow> int \<Rightarrow> int \<Rightarrow> box" where
  "crop_box x y w h = adjust_crop_area x y w h default_min_size"

definition model_anchor_point :: "(box \<Rightarrow> box list) \<Rightarrow> int \<Rightarrow> int \<Rightarrow> int \<Rightarrow> int \<Rightarrow> py_error + (int \<times> int)" where
  "model_anchor_point detect x y w h =
     (let crop = crop_box x y w h;
          detected_loc = detect crop
      in case detected_loc of
           [] \<Rightarrow> Inl AssertionError
         | (box_x, box_y, box_w, box_h) # _ \<Rightarrow>
             Inr (fst crop + int_of_half_sum box_x box_w,
                  fst (snd crop) + int_of_half_sum box_y box_h))"

section \<open>Images, files and the earring centre\<close>

text \<open>
  A three-dimensional numpy array of shape \<open>(nrows, ncols, nchan)\<close> with unsigned byte
  entries: \<open>px img r c k\<close> is \<^verbatim>\<open>img[r, c, k]\<close>, meaningful for indices in range. What
  \<^verbatim>\<open>cv2.imread(path, cv2.IMREAD_UNCHANGED)\<close> returns is \<open>None\<close> for an unreadable file,
  a two-dimensional array \<open>Mat2 h w f\<close> for a single-channel (grayscale) image, and a
  three-dimensional array \<open>Mat3 img\<close> otherwise (colour order B, G, R, then alpha).
\<close>

record image3 =
  nrows :: nat
  ncols :: nat
  nchan :: nat
  px :: "nat \<Rightarrow> nat \<Rightarrow> nat \<Rightarrow> nat"

datatype cv_mat = Mat2 nat nat "nat \<Rightarrow> nat \<Rightarrow> nat" | Mat3 image3

text \<open>The image files on disk, by path, as \<^verbatim>\<open>cv2.imread\<close> decodes them.\<close>

type_synonym file_store = "string \<Rightarrow> cv_mat option"

definition imread :: "file_store \<Rightarrow> string \<Rightarrow> cv_mat option" where
  "imread fs path = fs path"

text \<open>\<^verbatim>\<open>cv2.threshold(src, thresh, maxval, cv2.THRESH_BINARY)\<close>, per pixel.\<close>

definition threshold_binary :: "nat \<Rightarrow> nat \<Rightarrow> nat \<Rightarrow> nat" where
  "threshold_binary thresh maxval v = (if v > thresh then maxval else 0)"

text \<open>\<^verbatim>\<open>cv2.threshold(jewel_alpha_channel, 1, 255, cv2.THRESH_BINARY)\<close> on channel 3.\<close>

definition jewel_binary_mask :: "image3 \<Rightarrow> nat \<Rightarrow> nat \<Rightarrow> nat" where
  "jewel_binary_mask img r c = threshold_binary 1 255 (px img r c 3)"

text \<open>
  The spatial moments of \<^verbatim>\<open>cv2.moments\<close> for an \<open>h\<close> by \<open>w\<close> single-channel image \<open>I\<close>:
  \<open>m00\<close> sums the pixel values, \<open>m10\<close> weights them by the column index and \<open>m01\<close> by
  the row index. They are integer-valued; the floating-point quotient \<^verbatim>\<open>m10 / m00\<close>
  followed by \<^verbatim>\<open>int\<close> is modelled by integer division, which agrees with it as long
  as the moments stay below \<open>2^53\<close>.
\<close>

definition moment_m00 :: "nat \<Rightarrow> nat \<Rightarrow> (nat \<Rightarrow> nat \<Rightarrow> nat) \<Rightarrow> nat" where
  "moment_m00 h w I = (\<Sum>r\<leftarrow>[0..<h]. \<Sum>c\<leftarrow>[0..<w]. I r c)"

definition moment_m10 :: "nat \<Rightarrow> nat \<Rightarrow> (nat \<Rightarrow> nat \<Rightarrow> nat) \<Rightarrow> nat" where
  "moment_m10 h w I = (\<Sum>r\<leftarrow>[0..<h]. \<Sum>c\<leftarrow>[0..<w]. c * I r c)"

definition moment_m01 :: "nat \<Rightarrow> nat \<Rightarrow> (nat \<Rightarrow> nat \<Rightarrow> nat) \<Rightarrow> nat" where
  "moment_m01 h w I = (\<Sum>r\<leftarrow>[0..<h]. \<Sum>c\<leftarrow>[0..<w]. r * I r c)"

text \<open>
  \<^verbatim>\<open>jewel_center(jewel_path)\<close>. \<^verbatim>\<open>.shape\<close> of \<open>None\<close> raises \<open>AttributeError\<close>;
  \<^verbatim>\<open>.shape[2]\<close> of a two-dimensional array raises \<open>IndexError\<close>.
\<close>

definition jewel_center :: "file_store \<Rightarrow> string \<Rightarrow> py_error + (int \<times> int) option" where
  "jewel_center fs jewel_path =
     (case imread fs jewel_path of
        None \<Rightarrow> Inl AttributeError
      | Some (Mat2 h w f) \<Rightarrow> Inl IndexError
      | Some (Mat3 img) \<Rightarrow>
          if nchan img = 4 then
            (let m00 = moment_m00 (nrows img) (ncols img) (jewel_binary_mask img);
                 m10 = moment_m10 (nrows img) (ncols img) (jewel_binary_mask img);
                 m01 = moment_m01 (nrows img) (ncols img) (jewel_binary_mask img)
             in if m00 \<noteq> 0 then Inr (Some (int (m10 div m00), int (m01 div m00)))
                else Inr None)
          else Inr None)"

text \<open>\<^verbatim>\<open>np.where(I > 0)[0]\<close>: the row index of every positive entry, in row-major order.\<close>

definition where_rows :: "nat \<Rightarrow> nat \<Rightarrow> (nat \<Rightarrow> nat \<Rightarrow> nat) \<Rightarrow> nat list" where
  "where_rows h w I = [r. r \<leftarrow> [0..<h], c \<leftarrow> [0..<w], I r c > 0]"

text \<open>\<^verbatim>\<open>jewel_anchor_point(jewel_path)\<close>.\<close>

definition jewel_anchor_point :: "file_store \<Rightarrow> string \<Rightarrow> py_error + (int \<times> int) option" where
  "jewel_anchor_point fs jewel_path =
     (case imread fs jewel_path of
        None \<Rightarrow> Inl AttributeError
      | Some (Mat2 h w f) \<Rightarrow> Inl IndexError
      | Some (Mat3 img) \<Rightarrow>
          if nchan img = 4 then
            (let m00 = moment_m00 (nrows img) (ncols img) (jewel_binary_mask img);
                 m10 = moment_m10 (nrows img) (ncols img) (jewel_binary_mask img)
             in if m00 \<noteq> 0 then
                  (let cX = int (m10 div m00);
                       jewel_ys = where_rows (nrows img) (ncols img) (jewel_binary_mask img)
                   in if length jewel_ys = 0 then Inr None
                      else (let highest_y = int (Min (set jewel_ys));
                                lowest_y = int (Max (set jewel_ys));
                                target_y = highest_y + (lowest_y - highest_y) div 11
                            in Inr (Some (cX, target_y))))
                else Inr None)
          else Inr None)"

section \<open>get\_earring.py: region growing\<close>

text \<open>
  A pixel coordinate is a pair \<open>(row, column)\<close> of Python integers. The eight neighbours
  are listed in the order of the two nested loops over \<^verbatim>\<open>[-1, 0, 1]\<close>.
\<close>

type_synonym pixel = "int \<times> int"

definition neighbours8 :: "pixel \<Rightarrow> pixel list" where
  "neighbours8 p =
     [(fst p + dx, snd p + dy). dx \<leftarrow> [-1, 0, 1], dy \<leftarrow> [-1, 0, 1], \<not> (dx = 0 \<and> dy = 0)]"

definition in_bounds :: "nat \<Rightarrow> nat \<Rightarrow> pixel \<Rightarrow> bool" where
  "in_bounds rows cols p = (0 \<le> fst p \<and> fst p < int rows \<and> 0 \<le> snd p \<and> snd p < int cols)"

text \<open>
  The test that pushes a neighbour:
  \<^verbatim>\<open>0 <= nx < rows and 0 <= ny < cols and jewel_nobg_image_array[nx, ny][0] > 10\<close>.
  The array has at least one channel in every call, so the read does not raise.
\<close>

definition grows :: "image3 \<Rightarrow> pixel \<Rightarrow> bool" where
  "grows img p =
     (in_bounds (nrows img) (ncols img) p \<and> px img (nat (fst p)) (nat (snd p)) 0 > 10)"

text \<open>
  \<^verbatim>\<open>find_nonzero_pixel\<close>: \<^verbatim>\<open>np.argwhere(jewel_image[:, :, 0] > 0)\<close> lists the candidates
  in row-major order; \<^verbatim>\<open>random.choice\<close> picks the one at index \<open>rnd mod n\<close>, \<open>rnd\<close> standing
  for the random draw.
\<close>

definition find_nonzero_pixel :: "image3 \<Rightarrow> nat \<Rightarrow> pixel option" where
  "find_nonzero_pixel jewel_image rnd =
     (let jewel_nonzero_indices =
            [(int r, int c). r \<leftarrow> [0..<nrows jewel_image], c \<leftarrow> [0..<ncols jewel_image],
                             px jewel_image r c 0 > 0]
      in if length jewel_nonzero_indices = 0 then None
         else Some (jewel_nonzero_indices ! (rnd mod length jewel_nonzero_indices)))"

text \<open>
  The \<^verbatim>\<open>while stack\<close> loop of \<^verbatim>\<open>flood_fill\<close>. The head of the list is the top of the
  stack: \<^verbatim>\<open>stack.pop()\<close> takes it, and the neighbours appended in loop order end up
  reversed on top. The start pixel is added to \<^verbatim>\<open>visited_pixels\<close> without any test.
\<close>

function flood_loop :: "image3 \<Rightarrow> pixel list \<Rightarrow> pixel set \<Rightarrow> pixel set" where
  "flood_loop img [] visited_pixels = visited_pixels"
| "flood_loop img (pixel # stack) visited_pixels =
     (if pixel \<in> visited_pixels then flood_loop img stack visited_pixels
      else flood_loop img (rev (filter (grows img) (neighbours8 pixel)) @ stack)
             (insert pixel visited_pixels))"
  by pat_completeness auto
termination
proof (relation "inv_image (less_than <*lex*> less_than)
         (\<lambda>(img, stack, visited). (card ((set stack \<union> {p. grows img p}) - visited), length stack))")
  show "wf (inv_image (less_than <*lex*> less_than)
         (\<lambda>(img, stack, visited). (card ((set stack \<union> {p. grows img p}) - visited), length stack)))"
    by auto
next
  fix img :: image3 and pixel :: pixel and stack visited_pixels
  assume "pixel \<in> visited_pixels"
  then have "(insert pixel (set stack) \<union> {p. grows img p}) - visited_pixels
           = (set stack \<union> {p. grows img p}) - visited_pixels"
    by auto
  then show "((img, stack, visited_pixels), (img, pixel # stack, visited_pixels))
      \<in> inv_image (less_than <*lex*> less_than)
         (\<lambda>(img, stack, visited). (card ((set stack \<union> {p. grows img p}) - visited), length stack))"
    by simp
next
  fix img :: image3 and pixel :: pixel and stack visited_pixels
  assume nv: "pixel \<notin> visited_pixels"
  have fin: "finite {p. grows img p}"
  proof (rule finite_subset)
    show "{p. grows img p} \<subseteq> {0..<int (nrows img)} \<times> {0..<int (ncols img)}"
      by (auto simp: grows_def in_bounds_def)
  qed simp
  let ?old = "(set (pixel # stack) \<union> {p. grows img p}) - visited_pixels"
  let ?new = "(set (rev (filter (grows img) (neighbours8 pixel)) @ stack) \<union> {p. grows img p})
                - insert pixel visited_pixels"
  have "?new \<subset> ?old" using nv by auto
  moreover have "finite ?old" using fin by simp
  ultimately have "card ?new < card ?old" by (rule psubset_card_mono [rotated])
  then show "((img, rev (filter (grows img) (neighbours8 pixel)) @ stack, insert pixel visited_pixels),
              (img, pixel # stack, visited_pixels))
      \<in> inv_image (less_than <*lex*> less_than)
         (\<lambda>(img, stack, visited). (card ((set stack \<union> {p. grows img p}) - visited), length stack))"
    by simp
qed

text \<open>\<^verbatim>\<open>flood_fill(jewel_nobg_image_array, start, visited_pixels=None)\<close>.\<close>

definition flood_fill :: "image3 \<Rightarrow> pixel \<Rightarrow> pixel set option \<Rightarrow> pixel set" where
  "flood_fill jewel_nobg_image_array start visited_pixels =
     flood_loop jewel_nobg_image_array [start]
       (case visited_pixels of None \<Rightarrow> {} | Some v \<Rightarrow> v)"

section \<open>get\_earring.py: contour and fill\<close>

text \<open>
  \<^verbatim>\<open>mask[pixel] = True\<close> on a boolean array of shape \<open>(rows, cols)\<close>: numpy accepts an
  index \<open>i\<close> of an axis of length \<open>n\<close> when \<open>-n \<le> i < n\<close>, a negative one counting from
  the end, and raises \<open>IndexError\<close> otherwise. \<open>set_true\<close> is the loop that marks every
  pixel of a set; a boolean mask is modelled by the set of its true positions.
\<close>

definition np_index_ok :: "nat \<Rightarrow> nat \<Rightarrow> pixel \<Rightarrow> bool" where
  "np_index_ok rows cols p =
     (- int rows \<le> fst p \<and> fst p < int rows \<and> - int cols \<le> snd p \<and> snd p < int cols)"

definition np_wrap :: "nat \<Rightarrow> nat \<Rightarrow> pixel \<Rightarrow> pixel" where
  "np_wrap rows cols p =
     (if fst p < 0 then fst p + int rows else fst p,
      if snd p < 0 then snd p + int cols else snd p)"

definition set_true :: "nat \<Rightarrow> nat \<Rightarrow> pixel set \<Rightarrow> py_error + pixel set" where
  "set_true rows cols pixels =
     (if pixels \<subseteq> {p. np_index_ok rows cols p} then Inr (np_wrap rows cols ` pixels)
      else Inl IndexError)"

text \<open>The two nested loops with \<^verbatim>\<open>break\<close> that set \<^verbatim>\<open>is_edge\<close>.\<close>

definition is_edge :: "nat \<Rightarrow> nat \<Rightarrow> pixel set \<Rightarrow> pixel \<Rightarrow> bool" where
  "is_edge rows cols msk p = list_ex (\<lambda>n. in_bounds rows cols n \<and> n \<notin> msk) (neighbours8 p)"

text \<open>\<^verbatim>\<open>get_contour(visited_pixels, image_shape)\<close>.\<close>

definition get_contour :: "pixel set \<Rightarrow> nat \<times> nat \<Rightarrow> py_error + pixel set" where
  "get_contour visited_pixels image_shape =
     (case image_shape of (rows, cols) \<Rightarrow>
        bind_err (set_true rows cols visited_pixels)
          (\<lambda>msk. Inr {p \<in> visited_pixels. is_edge rows cols msk p}))"

definition neighbours4 :: "pixel \<Rightarrow> pixel list" where
  "neighbours4 p = [(fst p - 1, snd p), (fst p + 1, snd p), (fst p, snd p - 1), (fst p, snd p + 1)]"

definition on_border :: "nat \<Rightarrow> nat \<Rightarrow> pixel \<Rightarrow> bool" where
  "on_border rows cols p =
     (fst p = 0 \<or> fst p = int rows - 1 \<or> snd p = 0 \<or> snd p = int cols - 1)"

text \<open>
  Modelled from the spec: \<^verbatim>\<open>scipy.ndimage.binary_fill_holes\<close> is a library function and
  not among the sources. Section 4.2 of the spec asks for its semantics: every
  background pixel that cannot be reached from outside the shape becomes true. The
  library floods the background from the image border by repeated dilation with the
  4-connected cross until nothing changes; \<open>outside_flood\<close> is the flooded set, the least
  set closed under that step.
\<close>

inductive_set outside_flood :: "nat \<Rightarrow> nat \<Rightarrow> pixel set \<Rightarrow> pixel set"
  for rows :: nat and cols :: nat and msk :: "pixel set" where
  seed: "in_bounds rows cols p \<Longrightarrow> p \<notin> msk \<Longrightarrow> on_border rows cols p
           \<Longrightarrow> p \<in> outside_flood rows cols msk"
| spread: "p \<in> outside_flood rows cols msk \<Longrightarrow> q \<in> set (neighbours4 p)
           \<Longrightarrow> in_bounds rows cols q \<Longrightarrow> q \<notin> msk \<Longrightarrow> q \<in> outside_flood rows cols msk"

definition binary_fill_holes :: "nat \<Rightarrow> nat \<Rightarrow> pixel set \<Rightarrow> pixel set" where
  "binary_fill_holes rows cols msk =
     {p. in_bounds rows cols p \<and> p \<notin> outside_flood rows cols msk}"

text \<open>\<^verbatim>\<open>fill_contour(contour, image_shape)\<close>; only \<^verbatim>\<open>image_shape[:2]\<close> is used.\<close>

definition fill_contour :: "pixel set \<Rightarrow> nat \<times> nat \<Rightarrow> py_error + pixel set" where
  "fill_contour contour image_shape =
     (case image_shape of (rows, cols) \<Rightarrow>
        bind_err (set_true rows cols contour) (\<lambda>msk. Inr (binary_fill_holes rows cols msk)))"

section \<open>get\_earring.py: cutouts, labels and the pipeline\<close>

text \<open>\<^verbatim>\<open>jewel_nobg_image_array * filled_mask[:, :, np.newaxis]\<close>.\<close>

definition masked_image :: "image3 \<Rightarrow> pixel set \<Rightarrow> image3" where
  "masked_image arr filled_mask =
     arr\<lparr>px := (\<lambda>r c k. if (int r, int c) \<in> filled_mask then px arr r c k else 0)\<rparr>"

type_synonym rgba = "nat \<times> nat \<times> nat \<times> nat"

text \<open>
  A pixel of \<^verbatim>\<open>Image.fromarray(masked_image).convert("RGBA")\<close> for a three-channel array:
  the alpha is 255 everywhere.
\<close>

definition rgba_at :: "image3 \<Rightarrow> nat \<Rightarrow> nat \<Rightarrow> rgba" where
  "rgba_at im r c = (px im r c 0, px im r c 1, px im r c 2, 255)"

definition transparent_pixel :: "image3 \<Rightarrow> rgba \<Rightarrow> nat \<Rightarrow> nat \<Rightarrow> rgba" where
  "transparent_pixel masked background_color r c =
     (let current_color = rgba_at masked r c
      in if current_color \<noteq> background_color then current_color else (0, 0, 0, 0))"

text \<open>
  The saved RGBA image as \<^verbatim>\<open>cv2.imread\<close> reads it back: four channels in the order
  B, G, R, A. The file format is taken to keep the pixels (a PNG).
\<close>

definition saved_cutout :: "image3 \<Rightarrow> rgba \<Rightarrow> image3" where
  "saved_cutout masked background_color =
     \<lparr> nrows = nrows masked, ncols = ncols masked, nchan = 4,
       px = (\<lambda>r c k. case transparent_pixel masked background_color r c of
                        (R, G, B, A) \<Rightarrow> if k = 0 then B else if k = 1 then G
                                        else if k = 2 then R else A) \<rparr>"

text \<open>
  \<^verbatim>\<open>extract_one_earring\<close>. \<^verbatim>\<open>getpixel((0, 0))\<close> raises \<open>IndexError\<close> on an image without
  pixels; an empty \<^verbatim>\<open>earring_save_path\<close> (or \<open>None\<close>) saves nothing.
\<close>

definition extract_one_earring ::
    "image3 \<Rightarrow> pixel set \<Rightarrow> string \<Rightarrow> file_store \<Rightarrow> py_error + file_store" where
  "extract_one_earring jewel_nobg_image_array filled_mask earring_save_path fs =
     (let masked = masked_image jewel_nobg_image_array filled_mask
      in if nrows masked = 0 \<or> ncols masked = 0 then Inl IndexError
         else (let background_color = rgba_at masked 0 0
               in if earring_save_path \<noteq> []
                  then Inr (fs(earring_save_path \<mapsto> Mat3 (saved_cutout masked background_color)))
                  else Inr fs))"

text \<open>
  The complement image of \<^verbatim>\<open>extract_the_other\<close>: \<^verbatim>\<open>np.zeros_like\<close>, then channels 0 to 2
  are the original times \<^verbatim>\<open>~filled_mask\<close>.
\<close>

definition complement_image :: "image3 \<Rightarrow> pixel set \<Rightarrow> image3" where
  "complement_image arr filled_mask =
     arr\<lparr>px := (\<lambda>r c k. if k < 3 then (if (int r, int c) \<in> filled_mask then 0 else px arr r c k)
                         else 0)\<rparr>"

definition extract_the_other ::
    "image3 \<Rightarrow> pixel set \<Rightarrow> string \<Rightarrow> nat \<Rightarrow> file_store \<Rightarrow> py_error + file_store" where
  "extract_the_other jewel_nobg_image_array filled_mask earring_save_path rnd fs =
     (if nchan jewel_nobg_image_array < 3 then Inl IndexError
      else
        (let masked = complement_image jewel_nobg_image_array filled_mask;
             start_pixel = find_nonzero_pixel masked rnd;
             visited_pixels = (case start_pixel of
                                 Some s \<Rightarrow> flood_fill masked s None
                               | None \<Rightarrow> {});
             shape = (nrows masked, ncols masked)
         in bind_err (get_contour visited_pixels shape) (\<lambda>contour_pixels.
            bind_err (fill_contour contour_pixels shape) (\<lambda>filled_mask2.
              extract_one_earring masked filled_mask2 earring_save_path fs))))"

text \<open>
  \<^verbatim>\<open>os.rename(src, dst)\<close> on a POSIX file system: a missing source raises, the same path
  twice does nothing, and an existing destination file is replaced.
\<close>

definition os_rename :: "string \<Rightarrow> string \<Rightarrow> file_store \<Rightarrow> py_error + file_store" where
  "os_rename src dst fs =
     (case fs src of
        None \<Rightarrow> Inl FileNotFoundError
      | Some f \<Rightarrow> if src = dst then Inr fs else Inr ((fs(src := None))(dst \<mapsto> f)))"

text \<open>
  \<^verbatim>\<open>left_and_right(earring1_path, earring2_path)\<close>. The constants \<^verbatim>\<open>JEWEL_LEFT_PATH\<close> and
  \<^verbatim>\<open>JEWEL_RIGHT_PATH\<close> of \<^verbatim>\<open>src/constants.py\<close> are not among the sources and are
  parameters. Subscripting the \<open>None\<close> that \<^verbatim>\<open>jewel_center\<close> may return raises \<open>TypeError\<close>.
\<close>

definition left_and_right ::
    "string \<Rightarrow> string \<Rightarrow> string \<Rightarrow> string \<Rightarrow> file_store \<Rightarrow> py_error + file_store" where
  "left_and_right earring1_path earring2_path JEWEL_LEFT_PATH JEWEL_RIGHT_PATH fs =
     bind_err (jewel_center fs earring1_path) (\<lambda>c1.
       case c1 of
         None \<Rightarrow> Inl TypeError
       | Some (cX1, cY1) \<Rightarrow>
           bind_err (jewel_center fs earring2_path) (\<lambda>c2.
             case c2 of
               None \<Rightarrow> Inl TypeError
             | Some (cX2, cY2) \<Rightarrow>
                 (let left_earring_path = (if cX1 < cX2 then earring1_path else earring2_path);
                      right_earring_path = (if cX1 < cX2 then earring2_path else earring1_path)
                  in bind_err (os_rename left_earring_path JEWEL_LEFT_PATH fs) (\<lambda>fs1.
                       os_rename right_earring_path JEWEL_RIGHT_PATH fs1))))"

text \<open>
  \<^verbatim>\<open>main()\<close> from the array \<^verbatim>\<open>np.array(jewel_nobg_image.convert("RGB"))\<close> on: background
  removal and image decoding are external. \<open>rnd1\<close> and \<open>rnd2\<close> are the two random draws.
\<close>

definition main ::
    "image3 \<Rightarrow> nat \<Rightarrow> nat \<Rightarrow> string \<Rightarrow> string \<Rightarrow> file_store \<Rightarrow> py_error + file_store" where
  "main jewel_nobg_image_array rnd1 rnd2 JEWEL_LEFT_PATH JEWEL_RIGHT_PATH fs =
     (let start_pixel = find_nonzero_pixel jewel_nobg_image_array rnd1;
          visited_pixels = (case start_pixel of
                              Some s \<Rightarrow> flood_fill jewel_nobg_image_array s None
                            | None \<Rightarrow> {});
          shape = (nrows jewel_nobg_image_array, ncols jewel_nobg_image_array)
      in bind_err (get_contour visited_pixels shape) (\<lambda>contour_pixels.
         bind_err (fill_contour contour_pixels shape) (\<lambda>filled_mask.
         bind_err (extract_one_earring jewel_nobg_image_array filled_mask JEWEL_LEFT_PATH fs) (\<lambda>fs1.
         bind_err (extract_the_other jewel_nobg_image_array filled_mask JEWEL_RIGHT_PATH rnd2 fs1) (\<lambda>fs2.
           left_and_right JEWEL_LEFT_PATH JEWEL_RIGHT_PATH JEWEL_LEFT_PATH JEWEL_RIGHT_PATH fs2)))))"

section \<open>Notions the properties are stated with\<close>

text \<open>An image given by its rows of pixels, each pixel a list of channel values.\<close>

definition image_of_rows :: "nat list list list \<Rightarrow> image3" where
  "image_of_rows rs =
     \<lparr> nrows = length rs,
       ncols = (case rs of [] \<Rightarrow> 0 | r # _ \<Rightarrow> length r),
       nchan = (case rs of [] \<Rightarrow> 0 | r # _ \<Rightarrow> (case r of [] \<Rightarrow> 0 | p # _ \<Rightarrow> length p)),
       px = (\<lambda>r c k. rs ! r ! c ! k) \<rparr>"

text \<open>The foreground of a cutout: the pixels its binary alpha mask keeps.\<close>

definition foreground :: "image3 \<Rightarrow> (nat \<times> nat) set" where
  "foreground img = {(r, c). r < nrows img \<and> c < ncols img \<and> 1 < px img r c 3}"


text \<open>One growth step: from a pixel to an 8-neighbour that passes the growth test.\<close>

definition grow_step :: "image3 \<Rightarrow> (pixel \<times> pixel) set" where
  "grow_step img = {(p, q). q \<in> set (neighbours8 p) \<and> grows img q}"

definition closed_under :: "image3 \<Rightarrow> pixel set \<Rightarrow> pixel set \<Rightarrow> bool" where
  "closed_under img todo visited = (grow_step img `` visited \<subseteq> visited \<union> todo)"

text \<open>
  8-connected regions: \<open>link8 S\<close> joins 8-neighbours inside \<open>S\<close>; \<open>S\<close> is connected when
  any two members are joined by a chain inside \<open>S\<close>. \<open>max_region img s R\<close>: \<open>R\<close> is a
  connected region of pixels passing the growth test, contains \<open>s\<close>, and includes every
  other such region.
\<close>

definition link8 :: "pixel set \<Rightarrow> (pixel \<times> pixel) set" where
  "link8 S = {(p, q). p \<in> S \<and> q \<in> S \<and> q \<in> set (neighbours8 p)}"

definition connected8 :: "pixel set \<Rightarrow> bool" where
  "connected8 S = (\<forall>p\<in>S. \<forall>q\<in>S. (p, q) \<in> (link8 S)\<^sup>*)"

definition growth_set :: "image3 \<Rightarrow> pixel set" where
  "growth_set img = {p. grows img p}"

definition max_region :: "image3 \<Rightarrow> pixel \<Rightarrow> pixel set \<Rightarrow> bool" where
  "max_region img s R =
     (s \<in> R \<and> R \<subseteq> growth_set img \<and> connected8 R \<and>
      (\<forall>T. s \<in> T \<and> T \<subseteq> growth_set img \<and> connected8 T \<longrightarrow> T \<subseteq> R))"

text \<open>
  The region growing with the work list served in any order: any pixel of the work
  list may be taken next, and the list that remains, with the pushed neighbours, may be
  arranged in any way. \<open>flood_run img work visited result\<close> holds when some such run
  from \<open>work\<close> and \<open>visited\<close> ends with \<open>result\<close>.
\<close>

inductive flood_run :: "image3 \<Rightarrow> pixel list \<Rightarrow> pixel set \<Rightarrow> pixel set \<Rightarrow> bool"
  for img :: image3 where
  finished: "flood_run img [] visited visited"
| skip: "p \<in> set work \<Longrightarrow> p \<in> visited \<Longrightarrow> mset work' = mset (remove1 p work)
          \<Longrightarrow> flood_run img work' visited result \<Longrightarrow> flood_run img work visited result"
| visit: "p \<in> set work \<Longrightarrow> p \<notin> visited
          \<Longrightarrow> mset work' = mset (remove1 p work) + mset (filter (grows img) (neighbours8 p))
          \<Longrightarrow> flood_run img work' (insert p visited) result
          \<Longrightarrow> flood_run img work visited result"

text \<open>Solid rectangles of pixels, their perimeter, and the whole pixel grid of an image.\<close>

definition rect :: "int \<Rightarrow> int \<Rightarrow> int \<Rightarrow> int \<Rightarrow> pixel set" where
  "rect r0 r1 c0 c1 = {p. r0 \<le> fst p \<and> fst p \<le> r1 \<and> c0 \<le> snd p \<and> snd p \<le> c1}"

definition perimeter :: "int \<Rightarrow> int \<Rightarrow> int \<Rightarrow> int \<Rightarrow> pixel set" where
  "perimeter r0 r1 c0 c1 =
     {p. p \<in> rect r0 r1 c0 c1 \<and> (fst p = r0 \<or> fst p = r1 \<or> snd p = c0 \<or> snd p = c1)}"

definition grid :: "nat \<Rightarrow> nat \<Rightarrow> pixel set" where
  "grid rows cols = {p. in_bounds rows cols p}"

section \<open>Properties of the crop box\<close>

lemma adjust_width: "snd (adjust start (start + sz) sz m) - fst (adjust start (start + sz) sz m) = m"
  by (simp add: adjust_def Let_def)

lemma half_split: "(e::int) - e div 2 = e div 2 + e mod 2"
  by presburger

text \<open>
  C4. For every box and floor, the adjusted crop is exactly \<open>min_size\<close> wide and high. A
  dimension below the floor is padded by \<open>extra div 2\<close> before and \<open>extra div 2 + extra mod 2\<close>
  after; a dimension above it is shrunk by the same amounts, the odd remainder taken at
  the end. The box \<open>(10, 10, 100, 50)\<close> with floor 224 becomes \<open>(-52, -77, 172, 147)\<close>:
  62 before and 62 after in x, 87 and 87 in y.
\<close>

theorem adjust_crop_area_exact:
  fixes x y w h m :: int
  defines "r \<equiv> adjust_crop_area x y w h m"
  defines "x0 \<equiv> fst r" and "y0 \<equiv> fst (snd r)"
      and "x1 \<equiv> fst (snd (snd r))" and "y1 \<equiv> snd (snd (snd r))"
  shows "x1 - x0 = m \<and> y1 - y0 = m
       \<and> (w < m \<longrightarrow> x - x0 = (m - w) div 2 \<and> x1 - (x + w) = (m - w) div 2 + (m - w) mod 2)
       \<and> (m < w \<longrightarrow> x0 - x = (w - m) div 2 \<and> (x + w) - x1 = (w - m) div 2 + (w - m) mod 2)
       \<and> (h < m \<longrightarrow> y - y0 = (m - h) div 2 \<and> y1 - (y + h) = (m - h) div 2 + (m - h) mod 2)
       \<and> (m < h \<longrightarrow> y0 - y = (h - m) div 2 \<and> (y + h) - y1 = (h - m) div 2 + (h - m) mod 2)
       \<and> adjust_crop_area 10 10 100 50 224 = (-52, -77, 172, 147)"
proof -
  have wx: "x1 - x0 = m" and wy: "y1 - y0 = m"
    by (simp_all add: x0_def x1_def y0_def y1_def r_def adjust_crop_area_def Let_def adjust_width)
  have px: "w < m \<longrightarrow> x - x0 = (m - w) div 2 \<and> x1 - (x + w) = (m - w) div 2 + (m - w) mod 2"
    using half_split [of "m - w"]
    by (simp add: x0_def x1_def r_def adjust_crop_area_def adjust_def Let_def)
  have sx: "m < w \<longrightarrow> x0 - x = (w - m) div 2 \<and> (x + w) - x1 = (w - m) div 2 + (w - m) mod 2"
    using half_split [of "w - m"]
    by (simp add: x0_def x1_def r_def adjust_crop_area_def adjust_def Let_def)
  have py: "h < m \<longrightarrow> y - y0 = (m - h) div 2 \<and> y1 - (y + h) = (m - h) div 2 + (m - h) mod 2"
    using half_split [of "m - h"]
    by (simp add: y0_def y1_def r_def adjust_crop_area_def adjust_def Let_def)
  have sy: "m < h \<longrightarrow> y0 - y = (h - m) div 2 \<and> (y + h) - y1 = (h - m) div 2 + (h - m) mod 2"
    using half_split [of "h - m"]
    by (simp add: y0_def y1_def r_def adjust_crop_area_def adjust_def Let_def)
  have ex: "adjust_crop_area 10 10 100 50 224 = (-52, -77, 172, 147)"
    by (simp add: adjust_crop_area_def adjust_def Let_def)
  from wx wy px sx py sy ex show ?thesis by blast
qed

theorem adjust_crop_area_exact_witness:
  "(100::int) < 224 \<and> (50::int) < 224 \<and> (224::int) < 301 \<and>
   adjust_crop_area 10 10 100 50 224 = (-52, -77, 172, 147) \<and>
   172 - (-52) = (224::int) \<and> 147 - (-77) = (224::int) \<and>
   (10::int) - (-52) = (224 - 100) div 2 \<and> (172::int) - (10 + 100) = 62 \<and>
   (10::int) - (-77) = 87 \<and> (147::int) - (10 + 50) = 87 \<and>
   adjust_crop_area 0 0 301 301 224 = (38, 38, 262, 262) \<and>
   (38::int) - 0 = (301 - 224) div 2 \<and> ((0::int) + 301) - 262 = 38 + 1"
  using adjust_crop_area_exact [of 10 10 100 50 224] adjust_crop_area_exact [of 0 0 301 301 224]
  by (simp add: adjust_crop_area_def adjust_def Let_def)

text \<open>
  C10. \<^verbatim>\<open>adjust_crop_area\<close> takes no image dimensions and does not clamp. For a width
  below the floor the returned start is \<open>x - (min_size - w) div 2\<close>, negative whenever
  \<open>x < (min_size - w) div 2\<close>; likewise for y. The crop box that \<^verbatim>\<open>model_anchor_point\<close>
  hands to \<^verbatim>\<open>crop\<close> and then to the earlobe detector is this unclamped box at the
  default floor 224, so it starts at negative coordinates in those cases.
\<close>

theorem adjust_crop_area_unclamped:
  fixes x y w h m :: int
  shows "(w < m \<longrightarrow> fst (adjust_crop_area x y w h m) = x - (m - w) div 2
            \<and> (x < (m - w) div 2 \<longrightarrow> fst (adjust_crop_area x y w h m) < 0))
       \<and> (h < m \<longrightarrow> fst (snd (adjust_crop_area x y w h m)) = y - (m - h) div 2
            \<and> (y < (m - h) div 2 \<longrightarrow> fst (snd (adjust_crop_area x y w h m)) < 0))
       \<and> (w < 224 \<and> x < (224 - w) div 2 \<longrightarrow> fst (crop_box x y w h) < 0)
       \<and> (h < 224 \<and> y < (224 - h) div 2 \<longrightarrow> fst (snd (crop_box x y w h)) < 0)
       \<and> (\<forall>detect. detect (crop_box x y w h) = [] \<or>
            model_anchor_point detect x y w h =
              Inr (fst (crop_box x y w h)
                     + int_of_half_sum (fst (hd (detect (crop_box x y w h))))
                         (fst (snd (snd (hd (detect (crop_box x y w h)))))),
                   fst (snd (crop_box x y w h))
                     + int_of_half_sum (fst (snd (hd (detect (crop_box x y w h)))))
                         (snd (snd (snd (hd (detect (crop_box x y w h))))))))"
proof -
  have a: "w < m \<longrightarrow> fst (adjust_crop_area x y w h m) = x - (m - w) div 2
            \<and> (x < (m - w) div 2 \<longrightarrow> fst (adjust_crop_area x y w h m) < 0)"
    by (simp add: adjust_crop_area_def adjust_def Let_def)
  have b: "h < m \<longrightarrow> fst (snd (adjust_crop_area x y w h m)) = y - (m - h) div 2
            \<and> (y < (m - h) div 2 \<longrightarrow> fst (snd (adjust_crop_area x y w h m)) < 0)"
    by (simp add: adjust_crop_area_def adjust_def Let_def)
  have c: "w < 224 \<and> x < (224 - w) div 2 \<longrightarrow> fst (crop_box x y w h) < 0"
    by (simp add: crop_box_def default_min_size_def adjust_crop_area_def adjust_def Let_def)
  have d: "h < 224 \<and> y < (224 - h) div 2 \<longrightarrow> fst (snd (crop_box x y w h)) < 0"
    by (simp add: crop_box_def default_min_size_def adjust_crop_area_def adjust_def Let_def)
  have e: "detect (crop_box x y w h) = [] \<or>
            model_anchor_point detect x y w h =
              Inr (fst (crop_box x y w h)
                     + int_of_half_sum (fst (hd (detect (crop_box x y w h))))
                         (fst (snd (snd (hd (detect (crop_box x y w h)))))),
                   fst (snd (crop_box x y w h))
                     + int_of_half_sum (fst (snd (hd (detect (crop_box x y w h)))))
                         (snd (snd (snd (hd (detect (crop_box x y w h)))))))" for detect
    by (cases "detect (crop_box x y w h)")
       (auto simp add: model_anchor_point_def Let_def split: prod.splits)
  from a b c d e show ?thesis by blast
qed

theorem adjust_crop_area_unclamped_witness:
  "(100::int) < 224 \<and> (10::int) < (224 - 100) div 2 \<and> (50::int) < 224 \<and> (10::int) < (224 - 50) div 2 \<and>
   fst (adjust_crop_area 10 10 100 50 224) = -52 \<and>
   fst (snd (adjust_crop_area 10 10 100 50 224)) = -77 \<and>
   fst (crop_box 10 10 100 50) = -52 \<and> fst (snd (crop_box 10 10 100 50)) = -77 \<and>
   model_anchor_point (\<lambda>c. [(20, 30, 40, 60)]) 10 10 100 50 = Inr (-12, -17)"
  using adjust_crop_area_unclamped [of 100 224 10 10 50]
  by (simp add: crop_box_def default_min_size_def adjust_crop_area_def adjust_def Let_def
        model_anchor_point_def int_of_half_sum_def)

section \<open>The ear anchor without a secondary detection\<close>

text \<open>
  C9. When the earlobe detector returns no detection for the adjusted crop,
  \<^verbatim>\<open>model_anchor_point\<close> fails its assertion: the result is the \<open>AssertionError\<close>, and it
  is no coordinate pair.
\<close>

theorem model_anchor_point_asserts:
  assumes "detect (crop_box x y w h) = []"
  shows "model_anchor_point detect x y w h = Inl AssertionError
       \<and> (\<forall>p. model_anchor_point detect x y w h \<noteq> Inr p)"
  using assms by (simp add: model_anchor_point_def Let_def)

theorem model_anchor_point_asserts_witness:
  "(\<lambda>c. []) (crop_box 10 10 100 50) = ([] :: box list) \<and>
   model_anchor_point (\<lambda>c. []) 10 10 100 50 = Inl AssertionError"
  using model_anchor_point_asserts [of "\<lambda>c. []" 10 10 100 50]
  by simp

section \<open>Region growing computes reachability\<close>


lemma flood_loop_mono: "visited \<subseteq> flood_loop img stack visited"
  by (induction img stack visited rule: flood_loop.induct) auto

lemma flood_loop_stack: "set stack \<subseteq> flood_loop img stack visited"
proof (induction img stack visited rule: flood_loop.induct)
  case (1 img visited_pixels)
  then show ?case by simp
next
  case (2 img pixel stack visited_pixels)
  then show ?case
    using flood_loop_mono [of "insert pixel visited_pixels" img]
          flood_loop_mono [of "visited_pixels" img stack]
    by (auto split: if_splits)
qed

lemma flood_loop_sound:
  "flood_loop img stack visited \<subseteq> visited \<union> (grow_step img)\<^sup>* `` set stack"
proof (induction img stack visited rule: flood_loop.induct)
  case (1 img visited_pixels)
  then show ?case by simp
next
  case (2 img pixel stack visited_pixels)
  show ?case
  proof (cases "pixel \<in> visited_pixels")
    case True
    with 2 show ?thesis by auto
  next
    case False
    let ?R = "grow_step img"
    let ?nb = "rev (filter (grows img) (neighbours8 pixel))"
    have ih: "flood_loop img (?nb @ stack) (insert pixel visited_pixels)
                \<subseteq> insert pixel visited_pixels \<union> ?R\<^sup>* `` set (?nb @ stack)"
      using 2(2) [OF False] .
    have nb: "set ?nb \<subseteq> ?R `` {pixel}"
      by (auto simp: grow_step_def)
    have up: "?R\<^sup>* `` set (?nb @ stack) \<subseteq> ?R\<^sup>* `` set (pixel # stack)"
    proof
      fix q assume "q \<in> ?R\<^sup>* `` set (?nb @ stack)"
      then obtain p where p: "p \<in> set ?nb \<union> set stack" and pq: "(p, q) \<in> ?R\<^sup>*"
        by (auto simp del: set_rev set_filter)
      show "q \<in> ?R\<^sup>* `` set (pixel # stack)"
      proof (cases "p \<in> set stack")
        case True
        with pq show ?thesis by auto
      next
        case False
        with p nb have "(pixel, p) \<in> ?R" by blast
        then have "(pixel, q) \<in> ?R\<^sup>*" using pq by (rule converse_rtrancl_into_rtrancl)
        then show ?thesis by auto
      qed
    qed
    have self: "pixel \<in> ?R\<^sup>* `` set (pixel # stack)" by auto
    have unf: "flood_loop img (pixel # stack) visited_pixels
             = flood_loop img (?nb @ stack) (insert pixel visited_pixels)"
      using False by simp
    show ?thesis unfolding unf using ih up self by blast
  qed
qed

lemma flood_loop_closed:
  "closed_under img (set stack) visited \<Longrightarrow> closed_under img {} (flood_loop img stack visited)"
proof (induction img stack visited rule: flood_loop.induct)
  case (1 img visited_pixels)
  then show ?case by simp
next
  case (2 img pixel stack visited_pixels)
  show ?case
  proof (cases "pixel \<in> visited_pixels")
    case True
    with 2(3) have "closed_under img (set stack) visited_pixels"
      by (auto simp: closed_under_def)
    with 2(1) True show ?thesis by simp
  next
    case False
    have "closed_under img (set (rev (filter (grows img) (neighbours8 pixel)) @ stack))
            (insert pixel visited_pixels)"
      using 2(3) by (auto simp: closed_under_def grow_step_def)
    with 2(2) False show ?thesis by simp
  qed
qed

lemma closed_rtrancl:
  assumes "closed_under img {} S" and "(p, q) \<in> (grow_step img)\<^sup>*" and "p \<in> S"
  shows "q \<in> S"
  using assms(2,3,1) by (induction rule: rtrancl_induct) (auto simp: closed_under_def)

lemma flood_fill_reach: "flood_fill img start None = (grow_step img)\<^sup>* `` {start}"
proof
  show "flood_fill img start None \<subseteq> (grow_step img)\<^sup>* `` {start}"
    using flood_loop_sound [of img "[start]" "{}"] by (simp add: flood_fill_def)
next
  have "closed_under img {} (flood_loop img [start] {})"
    by (rule flood_loop_closed) (simp add: closed_under_def)
  then have c: "closed_under img {} (flood_fill img start None)"
    by (simp only: flood_fill_def option.case)
  have s: "start \<in> flood_fill img start None"
    using flood_loop_stack [of "[start]" img "{}"] by (simp add: flood_fill_def)
  show "(grow_step img)\<^sup>* `` {start} \<subseteq> flood_fill img start None"
    using closed_rtrancl [OF c _ s] by auto
qed

section \<open>Contours of clusters inside the image\<close>


lemma in_bounds_index_ok: "in_bounds rows cols p \<Longrightarrow> np_index_ok rows cols p"
  by (auto simp: in_bounds_def np_index_ok_def)

lemma in_bounds_wrap: "in_bounds rows cols p \<Longrightarrow> np_wrap rows cols p = p"
  by (auto simp: in_bounds_def np_wrap_def)

lemma set_true_in_bounds:
  assumes "pixels \<subseteq> grid rows cols"
  shows "set_true rows cols pixels = Inr pixels"
proof -
  have "pixels \<subseteq> {p. np_index_ok rows cols p}"
    using assms in_bounds_index_ok by (auto simp: grid_def)
  moreover have "np_wrap rows cols ` pixels = pixels"
    using assms in_bounds_wrap by (force simp: grid_def)
  ultimately show ?thesis by (simp add: set_true_def)
qed

lemma is_edge_iff:
  "is_edge rows cols msk p \<longleftrightarrow> (\<exists>n \<in> set (neighbours8 p). in_bounds rows cols n \<and> n \<notin> msk)"
  by (simp add: is_edge_def list_ex_iff)

lemma get_contour_in_bounds:
  assumes "visited \<subseteq> grid rows cols"
  shows "get_contour visited (rows, cols)
       = Inr {p \<in> visited. \<exists>n \<in> set (neighbours8 p). in_bounds rows cols n \<and> n \<notin> visited}"
  by (simp add: get_contour_def bind_err_def set_true_in_bounds [OF assms] is_edge_iff)

lemma neighbours8_list:
  "neighbours8 (x, y) = [(x - 1, y - 1), (x - 1, y), (x - 1, y + 1), (x, y - 1), (x, y + 1),
                         (x + 1, y - 1), (x + 1, y), (x + 1, y + 1)]"
  by (simp add: neighbours8_def)

lemma neighbours8_iff:
  "(a, b) \<in> set (neighbours8 (x, y)) \<longleftrightarrow>
     (a \<noteq> x \<or> b \<noteq> y) \<and> x - 1 \<le> a \<and> a \<le> x + 1 \<and> y - 1 \<le> b \<and> b \<le> y + 1"
  unfolding neighbours8_list by (simp; presburger)

lemma get_contour_whole_grid: "get_contour (grid rows cols) (rows, cols) = Inr {}"
proof -
  have "grid rows cols \<subseteq> grid rows cols" by simp
  then have "get_contour (grid rows cols) (rows, cols)
       = Inr {p \<in> grid rows cols. \<exists>n \<in> set (neighbours8 p). in_bounds rows cols n \<and> n \<notin> grid rows cols}"
    by (rule get_contour_in_bounds)
  also have "{p \<in> grid rows cols. \<exists>n \<in> set (neighbours8 p). in_bounds rows cols n \<and> n \<notin> grid rows cols} = {}"
    by (simp add: grid_def)
  finally show ?thesis .
qed

lemma rect_in_grid:
  assumes "0 \<le> r0" "r1 < int rows" "0 \<le> c0" "c1 < int cols"
  shows "rect r0 r1 c0 c1 \<subseteq> grid rows cols"
  using assms by (auto simp: rect_def grid_def in_bounds_def)

lemma rect_iff: "(x, y) \<in> rect r0 r1 c0 c1 \<longleftrightarrow> r0 \<le> x \<and> x \<le> r1 \<and> c0 \<le> y \<and> y \<le> c1"
  by (simp add: rect_def)

lemma perimeter_iff:
  "(x, y) \<in> perimeter r0 r1 c0 c1 \<longleftrightarrow>
     r0 \<le> x \<and> x \<le> r1 \<and> c0 \<le> y \<and> y \<le> c1 \<and> (x = r0 \<or> x = r1 \<or> y = c0 \<or> y = c1)"
  by (simp add: perimeter_def rect_def)

lemma in_bounds_iff: "in_bounds rows cols (x, y) \<longleftrightarrow> 0 \<le> x \<and> x < int rows \<and> 0 \<le> y \<and> y < int cols"
  by (simp add: in_bounds_def)

lemma edge_of_rect:
  assumes m: "1 \<le> r0" "r1 + 1 < int rows" "1 \<le> c0" "c1 + 1 < int cols"
    and p: "(x, y) \<in> rect r0 r1 c0 c1"
  shows "(\<exists>n \<in> set (neighbours8 (x, y)). in_bounds rows cols n \<and> n \<notin> rect r0 r1 c0 c1)
         \<longleftrightarrow> (x = r0 \<or> x = r1 \<or> y = c0 \<or> y = c1)"
proof
  assume "\<exists>n \<in> set (neighbours8 (x, y)). in_bounds rows cols n \<and> n \<notin> rect r0 r1 c0 c1"
  then obtain a b where n: "(a, b) \<in> set (neighbours8 (x, y))" and nr: "(a, b) \<notin> rect r0 r1 c0 c1"
    by auto
  from n have "x - 1 \<le> a" "a \<le> x + 1" "y - 1 \<le> b" "b \<le> y + 1"
    by (simp_all add: neighbours8_iff)
  moreover from nr have "a < r0 \<or> r1 < a \<or> b < c0 \<or> c1 < b"
    by (simp add: rect_iff) linarith
  moreover from p have "r0 \<le> x" "x \<le> r1" "c0 \<le> y" "y \<le> c1"
    by (simp_all add: rect_iff)
  ultimately show "x = r0 \<or> x = r1 \<or> y = c0 \<or> y = c1" by linarith
next
  assume e: "x = r0 \<or> x = r1 \<or> y = c0 \<or> y = c1"
  from p have b: "r0 \<le> x" "x \<le> r1" "c0 \<le> y" "y \<le> c1"
    by (simp_all add: rect_iff)
  from e consider "x = r0" | "x = r1" | "y = c0" | "y = c1" by blast
  then show "\<exists>n \<in> set (neighbours8 (x, y)). in_bounds rows cols n \<and> n \<notin> rect r0 r1 c0 c1"
  proof cases
    case 1
    have "(x - 1, y) \<in> set (neighbours8 (x, y))" by (simp add: neighbours8_iff)
    moreover have "in_bounds rows cols (x - 1, y)" using 1 m b by (simp add: in_bounds_iff)
    moreover have "(x - 1, y) \<notin> rect r0 r1 c0 c1" using 1 by (simp add: rect_iff)
    ultimately show ?thesis by blast
  next
    case 2
    have "(x + 1, y) \<in> set (neighbours8 (x, y))" by (simp add: neighbours8_iff)
    moreover have "in_bounds rows cols (x + 1, y)" using 2 m b by (simp add: in_bounds_iff)
    moreover have "(x + 1, y) \<notin> rect r0 r1 c0 c1" using 2 by (simp add: rect_iff)
    ultimately show ?thesis by blast
  next
    case 3
    have "(x, y - 1) \<in> set (neighbours8 (x, y))" by (simp add: neighbours8_iff)
    moreover have "in_bounds rows cols (x, y - 1)" using 3 m b by (simp add: in_bounds_iff)
    moreover have "(x, y - 1) \<notin> rect r0 r1 c0 c1" using 3 by (simp add: rect_iff)
    ultimately show ?thesis by blast
  next
    case 4
    have "(x, y + 1) \<in> set (neighbours8 (x, y))" by (simp add: neighbours8_iff)
    moreover have "in_bounds rows cols (x, y + 1)" using 4 m b by (simp add: in_bounds_iff)
    moreover have "(x, y + 1) \<notin> rect r0 r1 c0 c1" using 4 by (simp add: rect_iff)
    ultimately show ?thesis by blast
  qed
qed

lemma get_contour_rect:
  assumes "1 \<le> r0" "r1 + 1 < int rows" "1 \<le> c0" "c1 + 1 < int cols"
  shows "get_contour (rect r0 r1 c0 c1) (rows, cols) = Inr (perimeter r0 r1 c0 c1)"
proof -
  have sub: "rect r0 r1 c0 c1 \<subseteq> grid rows cols"
    using assms by (intro rect_in_grid) auto
  have "{p \<in> rect r0 r1 c0 c1. \<exists>n \<in> set (neighbours8 p). in_bounds rows cols n \<and> n \<notin> rect r0 r1 c0 c1}
        = perimeter r0 r1 c0 c1"
  proof (rule set_eqI)
    fix p :: pixel
    obtain x y where xy: "p = (x, y)" by (cases p)
    show "p \<in> {p \<in> rect r0 r1 c0 c1. \<exists>n \<in> set (neighbours8 p). in_bounds rows cols n \<and> n \<notin> rect r0 r1 c0 c1}
          \<longleftrightarrow> p \<in> perimeter r0 r1 c0 c1"
    proof (cases "(x, y) \<in> rect r0 r1 c0 c1")
      case True
      from edge_of_rect [OF assms True] True show ?thesis
        unfolding xy by (simp add: perimeter_iff rect_iff)
    next
      case False
      then have "(x, y) \<notin> perimeter r0 r1 c0 c1" by (simp add: perimeter_def)
      with False show ?thesis unfolding xy by simp
    qed
  qed
  then show ?thesis by (simp add: get_contour_in_bounds [OF sub])
qed

lemma rect_whole: "rect 0 2 0 2 = grid 3 3"
  by (auto simp: rect_def grid_def in_bounds_def)

text \<open>
  C5, for clusters inside the image. A cluster member is in the contour that
  \<^verbatim>\<open>get_contour\<close> returns exactly when one of its 8 neighbours is in bounds and outside
  the cluster, so the contour is a subset of the cluster. A solid rectangle that keeps
  a margin of one pixel to every image border has its perimeter as contour.
\<close>

theorem get_contour_characterised:
  assumes "visited_pixels \<subseteq> grid rows cols"
  shows "(\<exists>contour. get_contour visited_pixels (rows, cols) = Inr contour
           \<and> (\<forall>p. p \<in> contour \<longleftrightarrow>
                  p \<in> visited_pixels
                  \<and> (\<exists>n \<in> set (neighbours8 p). in_bounds rows cols n \<and> n \<notin> visited_pixels))
           \<and> contour \<subseteq> visited_pixels)
       \<and> (1 \<le> r0 \<and> r1 + 1 < int rows \<and> 1 \<le> c0 \<and> c1 + 1 < int cols
           \<longrightarrow> get_contour (rect r0 r1 c0 c1) (rows, cols) = Inr (perimeter r0 r1 c0 c1))"
proof
  show "\<exists>contour. get_contour visited_pixels (rows, cols) = Inr contour
           \<and> (\<forall>p. p \<in> contour \<longleftrightarrow>
                  p \<in> visited_pixels
                  \<and> (\<exists>n \<in> set (neighbours8 p). in_bounds rows cols n \<and> n \<notin> visited_pixels))
           \<and> contour \<subseteq> visited_pixels"
    unfolding get_contour_in_bounds [OF assms] by auto
  show "1 \<le> r0 \<and> r1 + 1 < int rows \<and> 1 \<le> c0 \<and> c1 + 1 < int cols
           \<longrightarrow> get_contour (rect r0 r1 c0 c1) (rows, cols) = Inr (perimeter r0 r1 c0 c1)"
    using get_contour_rect [of r0 r1 rows c0 c1 cols] by blast
qed

theorem get_contour_characterised_witness:
  "rect 1 2 1 1 \<subseteq> grid 4 3 \<and> (1::int) \<le> 1 \<and> (2::int) + 1 < int 4 \<and> (1::int) + 1 < int 3
   \<and> get_contour (rect 1 2 1 1) (4, 3) = Inr (perimeter 1 2 1 1)
   \<and> (1, 1) \<in> perimeter 1 2 1 1 \<and> (2, 1) \<in> perimeter 1 2 1 1"
proof -
  have sub: "rect 1 2 1 1 \<subseteq> grid 4 3"
    by (rule rect_in_grid) simp_all
  from get_contour_characterised [OF sub, of 1 2 1 1]
  have "get_contour (rect 1 2 1 1) (4, 3) = Inr (perimeter 1 2 1 1)" by simp
  with sub show ?thesis by (simp add: perimeter_iff rect_iff)
qed

text \<open>
  A rectangle that touches the image border: the 3 by 3 rectangle filling a 3 by 3 image
  has no in-bounds neighbour outside it, so its contour is empty, while every pixel but
  the centre is on its perimeter.
\<close>

theorem get_contour_border_rect:
  "rect 0 2 0 2 \<subseteq> grid 3 3 \<and> get_contour (rect 0 2 0 2) (3, 3) = Inr {}
   \<and> (0, 0) \<in> perimeter 0 2 0 2 \<and> (0, 0) \<in> rect 0 2 0 2"
  using get_contour_whole_grid [of 3 3]
  by (simp add: rect_whole perimeter_def) (simp add: grid_def in_bounds_def)

section \<open>Filling a contour\<close>


lemma neighbours4_iff:
  "(a, b) \<in> set (neighbours4 (x, y)) \<longleftrightarrow>
     (a = x - 1 \<and> b = y) \<or> (a = x + 1 \<and> b = y) \<or> (a = x \<and> b = y - 1) \<or> (a = x \<and> b = y + 1)"
  by (simp add: neighbours4_def)

text \<open>A straight run of background pixels ending on the image border is flooded.\<close>

lemma ray_outside:
  assumes d: "(dx, dy) \<in> {(1, 0), (-1, 0), (0, 1), (0, -1)}"
    and border: "on_border rows cols (x + int k * dx, y + int k * dy)"
    and free: "\<And>i. i \<le> k \<Longrightarrow> in_bounds rows cols (x + int i * dx, y + int i * dy)
                        \<and> (x + int i * dx, y + int i * dy) \<notin> msk"
  shows "(x, y) \<in> outside_flood rows cols msk"
  using border free
proof (induction k arbitrary: x y)
  case 0
  from 0(2) [of 0] have "in_bounds rows cols (x, y)" "(x, y) \<notin> msk" by simp_all
  moreover from 0(1) have "on_border rows cols (x, y)" by simp
  ultimately show ?case by (intro outside_flood.seed)
next
  case (Suc k)
  have b: "on_border rows cols (x + dx + int k * dx, y + dy + int k * dy)"
    using Suc.prems(1) by (simp add: algebra_simps)
  have f: "in_bounds rows cols (x + dx + int i * dx, y + dy + int i * dy)
           \<and> (x + dx + int i * dx, y + dy + int i * dy) \<notin> msk" if "i \<le> k" for i
    using Suc.prems(2) [of "Suc i"] that by (simp add: algebra_simps)
  have nb: "(x + dx, y + dy) \<in> outside_flood rows cols msk"
    using Suc.IH [OF b f] by simp
  have here: "in_bounds rows cols (x, y)" "(x, y) \<notin> msk"
    using Suc.prems(2) [of 0] by simp_all
  have adj: "(x, y) \<in> set (neighbours4 (x + dx, y + dy))"
    using d by (auto simp: neighbours4_iff)
  from nb adj here show ?case by (rule outside_flood.spread)
qed

lemma outside_in_bounds: "p \<in> outside_flood rows cols msk \<Longrightarrow> in_bounds rows cols p \<and> p \<notin> msk"
  by (induction rule: outside_flood.induct) auto

lemma outside_up:
  assumes "in_bounds rows cols (x, y)" and "\<And>i. 0 \<le> i \<Longrightarrow> i \<le> x \<Longrightarrow> (i, y) \<notin> msk"
  shows "(x, y) \<in> outside_flood rows cols msk"
proof (rule ray_outside [where dx = "-1" and dy = 0 and k = "nat x"])
  show "(- 1, 0) \<in> {(1, 0), (- 1, 0), (0, 1), (0, - 1 :: int)}" by simp
  show "on_border rows cols (x + int (nat x) * - 1, y + int (nat x) * 0)"
    using assms(1) by (simp add: on_border_def in_bounds_iff)
  fix i assume "i \<le> nat x"
  with assms(1) have rng: "0 \<le> x - int i \<and> x - int i \<le> x"
    unfolding in_bounds_iff by arith
  then show "in_bounds rows cols (x + int i * - 1, y + int i * 0)
        \<and> (x + int i * - 1, y + int i * 0) \<notin> msk"
    using assms(1) assms(2) [of "x - int i"] by (simp add: in_bounds_iff)
qed

lemma outside_down:
  assumes "in_bounds rows cols (x, y)" and "\<And>i. x \<le> i \<Longrightarrow> i < int rows \<Longrightarrow> (i, y) \<notin> msk"
  shows "(x, y) \<in> outside_flood rows cols msk"
proof (rule ray_outside [where dx = 1 and dy = 0 and k = "nat (int rows - 1 - x)"])
  show "(1, 0) \<in> {(1, 0), (- 1, 0), (0, 1), (0, - 1 :: int)}" by simp
  show "on_border rows cols (x + int (nat (int rows - 1 - x)) * 1, y + int (nat (int rows - 1 - x)) * 0)"
    using assms(1) by (simp add: on_border_def in_bounds_iff)
  fix i assume "i \<le> nat (int rows - 1 - x)"
  with assms(1) have rng: "x \<le> x + int i \<and> x + int i < int rows"
    unfolding in_bounds_iff by arith
  then show "in_bounds rows cols (x + int i * 1, y + int i * 0)
        \<and> (x + int i * 1, y + int i * 0) \<notin> msk"
    using assms(1) assms(2) [of "x + int i"] by (simp add: in_bounds_iff)
qed

lemma outside_left:
  assumes "in_bounds rows cols (x, y)" and "\<And>j. 0 \<le> j \<Longrightarrow> j \<le> y \<Longrightarrow> (x, j) \<notin> msk"
  shows "(x, y) \<in> outside_flood rows cols msk"
proof (rule ray_outside [where dx = 0 and dy = "-1" and k = "nat y"])
  show "(0, - 1) \<in> {(1, 0), (- 1, 0), (0, 1), (0, - 1 :: int)}" by simp
  show "on_border rows cols (x + int (nat y) * 0, y + int (nat y) * - 1)"
    using assms(1) by (simp add: on_border_def in_bounds_iff)
  fix i assume "i \<le> nat y"
  with assms(1) have rng: "0 \<le> y - int i \<and> y - int i \<le> y"
    unfolding in_bounds_iff by arith
  then show "in_bounds rows cols (x + int i * 0, y + int i * - 1)
        \<and> (x + int i * 0, y + int i * - 1) \<notin> msk"
    using assms(1) assms(2) [of "y - int i"] by (simp add: in_bounds_iff)
qed

lemma outside_right:
  assumes "in_bounds rows cols (x, y)" and "\<And>j. y \<le> j \<Longrightarrow> j < int cols \<Longrightarrow> (x, j) \<notin> msk"
  shows "(x, y) \<in> outside_flood rows cols msk"
proof (rule ray_outside [where dx = 0 and dy = 1 and k = "nat (int cols - 1 - y)"])
  show "(0, 1) \<in> {(1, 0), (- 1, 0), (0, 1), (0, - 1 :: int)}" by simp
  show "on_border rows cols (x + int (nat (int cols - 1 - y)) * 0, y + int (nat (int cols - 1 - y)) * 1)"
    using assms(1) by (simp add: on_border_def in_bounds_iff)
  fix i assume "i \<le> nat (int cols - 1 - y)"
  with assms(1) have rng: "y \<le> y + int i \<and> y + int i < int cols"
    unfolding in_bounds_iff by arith
  then show "in_bounds rows cols (x + int i * 0, y + int i * 1)
        \<and> (x + int i * 0, y + int i * 1) \<notin> msk"
    using assms(1) assms(2) [of "y + int i"] by (simp add: in_bounds_iff)
qed

lemma binary_fill_holes_empty: "binary_fill_holes rows cols {} = {}"
proof -
  have "p \<in> outside_flood rows cols {}" if "in_bounds rows cols p" for p
  proof -
    obtain x y where xy: "p = (x, y)" by (cases p)
    show ?thesis using that unfolding xy by (intro outside_up) simp_all
  qed
  then show ?thesis by (auto simp: binary_fill_holes_def)
qed

lemma fill_contour_empty: "fill_contour {} (rows, cols) = Inr {}"
  by (simp add: fill_contour_def set_true_def bind_err_def binary_fill_holes_empty)

lemma outside_perimeter_avoids_rect:
  assumes m: "1 \<le> r0" "r1 + 1 < int rows" "1 \<le> c0" "c1 + 1 < int cols"
    and o: "p \<in> outside_flood rows cols (perimeter r0 r1 c0 c1)"
  shows "p \<notin> rect r0 r1 c0 c1"
  using o
proof (induction rule: outside_flood.induct)
  case (seed p)
  obtain x y where xy: "p = (x, y)" by (cases p)
  from seed(3) m show ?case unfolding xy
    by (simp add: on_border_def rect_iff) linarith
next
  case (spread p q)
  obtain x y where xy: "p = (x, y)" by (cases p)
  obtain a b where ab: "q = (a, b)" by (cases q)
  from spread(2) have adj: "(a = x - 1 \<and> b = y) \<or> (a = x + 1 \<and> b = y) \<or> (a = x \<and> b = y - 1) \<or> (a = x \<and> b = y + 1)"
    unfolding xy ab by (simp add: neighbours4_iff)
  from spread(5) have np: "\<not> (r0 \<le> x \<and> x \<le> r1 \<and> c0 \<le> y \<and> y \<le> c1)"
    unfolding xy by (simp add: rect_iff)
  from spread(4) have nq: "\<not> (r0 \<le> a \<and> a \<le> r1 \<and> c0 \<le> b \<and> b \<le> c1 \<and> (a = r0 \<or> a = r1 \<or> b = c0 \<or> b = c1))"
    unfolding ab by (simp add: perimeter_iff)
  show ?case
  proof
    assume "q \<in> rect r0 r1 c0 c1"
    then have qr: "r0 \<le> a" "a \<le> r1" "c0 \<le> b" "b \<le> c1"
      unfolding ab by (simp_all add: rect_iff)
    with nq have "r0 < a" "a < r1" "c0 < b" "b < c1" by linarith+
    with adj np show False by linarith
  qed
qed

lemma fill_perimeter:
  assumes m: "1 \<le> r0" "r1 + 1 < int rows" "1 \<le> c0" "c1 + 1 < int cols"
  shows "binary_fill_holes rows cols (perimeter r0 r1 c0 c1) = rect r0 r1 c0 c1"
proof (rule set_eqI)
  fix p :: pixel
  obtain x y where xy: "p = (x, y)" by (cases p)
  let ?P = "perimeter r0 r1 c0 c1"
  have sub: "rect r0 r1 c0 c1 \<subseteq> grid rows cols"
    using m by (intro rect_in_grid) auto
  show "p \<in> binary_fill_holes rows cols ?P \<longleftrightarrow> p \<in> rect r0 r1 c0 c1"
  proof (cases "p \<in> rect r0 r1 c0 c1")
    case True
    then have "in_bounds rows cols p" using sub by (auto simp: grid_def)
    moreover have "p \<notin> outside_flood rows cols ?P"
      using outside_perimeter_avoids_rect [OF m] True by blast
    ultimately show ?thesis using True by (simp add: binary_fill_holes_def)
  next
    case False
    have "p \<in> outside_flood rows cols ?P" if ib: "in_bounds rows cols p"
    proof -
      from False have "x < r0 \<or> r1 < x \<or> y < c0 \<or> c1 < y"
        unfolding xy by (simp add: rect_iff) linarith
      then consider "x < r0" | "r1 < x" | "y < c0" | "c1 < y" by blast
      then show ?thesis
      proof cases
        case 1
        show ?thesis unfolding xy
          by (rule outside_up) (use ib xy 1 in \<open>simp_all add: perimeter_iff\<close>)
      next
        case 2
        show ?thesis unfolding xy
          by (rule outside_down) (use ib xy 2 in \<open>simp_all add: perimeter_iff\<close>)
      next
        case 3
        show ?thesis unfolding xy
          by (rule outside_left) (use ib xy 3 in \<open>simp_all add: perimeter_iff\<close>)
      next
        case 4
        show ?thesis unfolding xy
          by (rule outside_right) (use ib xy 4 in \<open>simp_all add: perimeter_iff\<close>)
      qed
    qed
    with False show ?thesis by (auto simp: binary_fill_holes_def)
  qed
qed

lemma perimeter_in_grid:
  assumes "1 \<le> r0" "r1 + 1 < int rows" "1 \<le> c0" "c1 + 1 < int cols"
  shows "perimeter r0 r1 c0 c1 \<subseteq> grid rows cols"
  using assms by (auto simp: perimeter_def rect_def grid_def in_bounds_def)

lemma fill_contour_perimeter:
  assumes m: "1 \<le> r0" "r1 + 1 < int rows" "1 \<le> c0" "c1 + 1 < int cols"
  shows "fill_contour (perimeter r0 r1 c0 c1) (rows, cols) = Inr (rect r0 r1 c0 c1)"
  by (simp add: fill_contour_def bind_err_def set_true_in_bounds [OF perimeter_in_grid [OF m]]
        fill_perimeter [OF m])

section \<open>Contour then fill on rectangles\<close>

text \<open>
  C6, for rectangles with a margin. For a solid rectangle that keeps a margin of one
  pixel to every image border, \<^verbatim>\<open>fill_contour\<close> applied to the contour that
  \<^verbatim>\<open>get_contour\<close> extracts returns the rectangle.
\<close>

theorem fill_get_contour_rect:
  assumes "1 \<le> r0" "r1 + 1 < int rows" "1 \<le> c0" "c1 + 1 < int cols"
  shows "bind_err (get_contour (rect r0 r1 c0 c1) (rows, cols))
           (\<lambda>contour_pixels. fill_contour contour_pixels (rows, cols))
         = Inr (rect r0 r1 c0 c1)"
  by (simp add: get_contour_rect [OF assms] fill_contour_perimeter [OF assms] bind_err_def)

theorem fill_get_contour_rect_witness:
  "(1::int) \<le> 1 \<and> (3::int) + 1 < int 5
   \<and> bind_err (get_contour (rect 1 3 1 3) (5, 5))
           (\<lambda>contour_pixels. fill_contour contour_pixels (5, 5))
         = Inr (rect 1 3 1 3)
   \<and> (2, 2) \<in> rect 1 3 1 3 \<and> (2, 2) \<notin> perimeter 1 3 1 3"
proof -
  from fill_get_contour_rect [of 1 3 5 1 3 5]
  have "bind_err (get_contour (rect 1 3 1 3) (5, 5))
           (\<lambda>contour_pixels. fill_contour contour_pixels (5, 5)) = Inr (rect 1 3 1 3)"
    by simp
  then show ?thesis by (simp add: perimeter_iff rect_iff)
qed

text \<open>
  Without the margin the round trip loses pixels: for the rectangle filling a 3 by 3
  image the contour is empty, and so is the filled mask.
\<close>

theorem fill_get_contour_border_rect:
  "rect 0 2 0 2 \<subseteq> grid 3 3
   \<and> bind_err (get_contour (rect 0 2 0 2) (3, 3))
           (\<lambda>contour_pixels. fill_contour contour_pixels (3, 3)) = Inr {}
   \<and> (1, 1) \<in> rect 0 2 0 2"
  using get_contour_whole_grid [of 3 3] fill_contour_empty [of 3 3]
  by (simp add: rect_whole bind_err_def) (simp add: grid_def in_bounds_def)

section \<open>Moments of the binary alpha mask\<close>

lemma finite_foreground: "finite (foreground img)"
proof (rule finite_subset)
  show "foreground img \<subseteq> {..<nrows img} \<times> {..<ncols img}"
    by (auto simp: foreground_def)
qed simp

lemma sum_list_upt: "(\<Sum>i\<leftarrow>[0..<n]. f i) = (\<Sum>i<n. f i)"
  by (simp add: interv_sum_list_conv_sum_set_nat atLeast0LessThan)

lemma double_sum_mask:
  fixes g :: "nat \<Rightarrow> nat \<Rightarrow> nat"
  shows "(\<Sum>r\<leftarrow>[0..<nrows img]. \<Sum>c\<leftarrow>[0..<ncols img]. g r c * jewel_binary_mask img r c)
       = 255 * (\<Sum>(r, c)\<in>foreground img. g r c)"
proof -
  let ?A = "{..<nrows img} \<times> {..<ncols img}"
  have "(\<Sum>r\<leftarrow>[0..<nrows img]. \<Sum>c\<leftarrow>[0..<ncols img]. g r c * jewel_binary_mask img r c)
      = (\<Sum>r<nrows img. \<Sum>c<ncols img. g r c * jewel_binary_mask img r c)"
    by (simp add: sum_list_upt)
  also have "\<dots> = (\<Sum>(r, c)\<in>?A. g r c * jewel_binary_mask img r c)"
    by (simp add: sum.cartesian_product)
  also have "\<dots> = (\<Sum>(r, c)\<in>?A. if (r, c) \<in> foreground img then 255 * g r c else 0)"
    by (rule sum.cong) (auto simp: foreground_def jewel_binary_mask_def threshold_binary_def)
  also have "\<dots> = (\<Sum>p\<in>?A. if p \<in> foreground img then 255 * (case p of (r, c) \<Rightarrow> g r c) else 0)"
    by (rule sum.cong) auto
  also have "\<dots> = (\<Sum>p\<in>?A \<inter> foreground img. 255 * (case p of (r, c) \<Rightarrow> g r c))"
    by (simp add: sum.inter_restrict)
  also have "?A \<inter> foreground img = foreground img"
    by (auto simp: foreground_def)
  also have "(\<Sum>p\<in>foreground img. 255 * (case p of (r, c) \<Rightarrow> g r c))
           = 255 * (\<Sum>(r, c)\<in>foreground img. g r c)"
    by (simp add: sum_distrib_left)
  finally show ?thesis .
qed

lemma m00_foreground:
  "moment_m00 (nrows img) (ncols img) (jewel_binary_mask img) = 255 * card (foreground img)"
  using double_sum_mask [of "\<lambda>r c. 1" img] by (simp add: moment_m00_def)


lemma m01_foreground:
  "moment_m01 (nrows img) (ncols img) (jewel_binary_mask img) = 255 * (\<Sum>(r, c)\<in>foreground img. r)"
  using double_sum_mask [of "\<lambda>r c. r" img] by (simp add: moment_m01_def)


lemma m00_zero_iff:
  "moment_m00 (nrows img) (ncols img) (jewel_binary_mask img) = 0 \<longleftrightarrow> foreground img = {}"
  by (simp add: m00_foreground finite_foreground)

section \<open>The earring centre of a cutout without foreground or alpha channel\<close>

text \<open>
  C7. For a cutout, a three-dimensional array, that has no alpha channel or whose binary
  alpha mask has \<open>m00 = 0\<close>, which is the case exactly when no pixel is foreground,
  \<^verbatim>\<open>jewel_center\<close> and \<^verbatim>\<open>jewel_anchor_point\<close> both return \<open>None\<close>: no exception is
  raised, no quotient by \<open>m00\<close> is taken and no coordinate pair is returned.
\<close>

theorem jewel_center_undefined:
  assumes "fs jewel_path = Some (Mat3 img)"
    and "nchan img \<noteq> 4 \<or> moment_m00 (nrows img) (ncols img) (jewel_binary_mask img) = 0"
  shows "jewel_center fs jewel_path = Inr None
       \<and> jewel_anchor_point fs jewel_path = Inr None
       \<and> (moment_m00 (nrows img) (ncols img) (jewel_binary_mask img) = 0
            \<longleftrightarrow> foreground img = {})"
proof -
  have "jewel_center fs jewel_path = Inr None"
    using assms by (auto simp: jewel_center_def imread_def Let_def)
  moreover have "jewel_anchor_point fs jewel_path = Inr None"
    using assms by (auto simp: jewel_anchor_point_def imread_def Let_def)
  ultimately show ?thesis using m00_zero_iff [of img] by blast
qed

theorem jewel_center_undefined_witness:
  "jewel_center [''e.png'' \<mapsto> Mat3 (image_of_rows [[[7, 7, 7, 0], [7, 7, 7, 1]]])] ''e.png'' = Inr None
   \<and> jewel_anchor_point [''e.png'' \<mapsto> Mat3 (image_of_rows [[[7, 7, 7, 0], [7, 7, 7, 1]]])] ''e.png''
       = Inr None
   \<and> nchan (image_of_rows [[[7, 7, 7, 0], [7, 7, 7, 1]]]) = 4
   \<and> foreground (image_of_rows [[[7, 7, 7, 0], [7, 7, 7, 1]]]) = {}
   \<and> nchan (image_of_rows [[[7, 7, 7]]]) \<noteq> 4
   \<and> jewel_center [''e.png'' \<mapsto> Mat3 (image_of_rows [[[7, 7, 7]]])] ''e.png'' = Inr None
   \<and> jewel_anchor_point [''e.png'' \<mapsto> Mat3 (image_of_rows [[[7, 7, 7]]])] ''e.png'' = Inr None"
proof -
  let ?a = "image_of_rows [[[7, 7, 7, 0], [7, 7, 7, 1]]]"
  let ?b = "image_of_rows [[[7, 7, 7]]]"
  have fa: "foreground ?a = {}"
    by (auto simp: foreground_def image_of_rows_def less_2_cases_iff nth_Cons')
  have na: "nchan ?a = 4" by (simp add: image_of_rows_def)
  have nb: "nchan ?b \<noteq> 4" by (simp add: image_of_rows_def)
  have ha: "[''e.png'' \<mapsto> Mat3 ?a] ''e.png'' = Some (Mat3 ?a)" by simp
  have hb: "[''e.png'' \<mapsto> Mat3 ?b] ''e.png'' = Some (Mat3 ?b)" by simp
  have ma: "moment_m00 (nrows ?a) (ncols ?a) (jewel_binary_mask ?a) = 0"
    using fa by (simp only: m00_zero_iff)
  note ta = jewel_center_undefined [of "[''e.png'' \<mapsto> Mat3 ?a]" "''e.png''" ?a, OF ha disjI2 [OF ma]]
  note tb = jewel_center_undefined [of "[''e.png'' \<mapsto> Mat3 ?b]" "''e.png''" ?b, OF hb disjI1 [OF nb]]
  show ?thesis
    by (intro conjI ta [THEN conjunct1] ta [THEN conjunct2, THEN conjunct1] na fa nb
          tb [THEN conjunct1] tb [THEN conjunct2, THEN conjunct1])
qed

section \<open>The earring anchor point\<close>









section \<open>Region growing returns the connected region of the seed\<close>

lemma neighbours8_sym: "q \<in> set (neighbours8 p) \<Longrightarrow> p \<in> set (neighbours8 q)"
proof -
  obtain a b where q: "q = (a, b)" by (cases q)
  obtain x y where p: "p = (x, y)" by (cases p)
  assume "q \<in> set (neighbours8 p)"
  then have "(a \<noteq> x \<or> b \<noteq> y) \<and> x - 1 \<le> a \<and> a \<le> x + 1 \<and> y - 1 \<le> b \<and> b \<le> y + 1"
    unfolding p q neighbours8_iff .
  then have "(x \<noteq> a \<or> y \<noteq> b) \<and> a - 1 \<le> x \<and> x \<le> a + 1 \<and> b - 1 \<le> y \<and> y \<le> b + 1"
    by auto
  then show ?thesis unfolding p q neighbours8_iff .
qed

lemma sym_link8: "sym (link8 S)"
  unfolding sym_def link8_def using neighbours8_sym by blast

lemma reach_grows:
  assumes "(s, p) \<in> (grow_step img)\<^sup>*" and "grows img s"
  shows "grows img p"
  using assms by (induction rule: rtrancl_induct) (auto simp: grow_step_def)

lemma reach_linked:
  assumes "(s, p) \<in> (grow_step img)\<^sup>*"
  shows "(s, p) \<in> (link8 ((grow_step img)\<^sup>* `` {s}))\<^sup>*"
  using assms
proof (induction rule: rtrancl_induct)
  case base
  show ?case by simp
next
  case (step p q)
  from step(1,2) have "(s, q) \<in> (grow_step img)\<^sup>*" by (rule rtrancl_into_rtrancl)
  with step(1,2) have "(p, q) \<in> link8 ((grow_step img)\<^sup>* `` {s})"
    by (auto simp: link8_def grow_step_def)
  with step(3) show ?case by (rule rtrancl_into_rtrancl)
qed

lemma connected8_reach: "connected8 ((grow_step img)\<^sup>* `` {s})"
  unfolding connected8_def
proof (intro ballI)
  let ?F = "(grow_step img)\<^sup>* `` {s}"
  fix p q assume "p \<in> ?F" "q \<in> ?F"
  then have sp: "(s, p) \<in> (link8 ?F)\<^sup>*" and sq: "(s, q) \<in> (link8 ?F)\<^sup>*"
    using reach_linked by auto
  from sp have "(p, s) \<in> (link8 ?F)\<^sup>*"
    using sym_rtrancl [OF sym_link8] by (auto dest: symD)
  then show "(p, q) \<in> (link8 ?F)\<^sup>*" using sq by (rule rtrancl_trans)
qed

lemma link8_grow_step:
  assumes "T \<subseteq> growth_set img"
  shows "link8 T \<subseteq> grow_step img"
  using assms by (auto simp: link8_def grow_step_def growth_set_def)

lemma region_in_reach:
  assumes "s \<in> T" "T \<subseteq> growth_set img" "connected8 T"
  shows "T \<subseteq> (grow_step img)\<^sup>* `` {s}"
proof
  fix p assume "p \<in> T"
  with assms(1,3) have "(s, p) \<in> (link8 T)\<^sup>*" by (simp add: connected8_def)
  then have "(s, p) \<in> (grow_step img)\<^sup>*"
    using rtrancl_mono [OF link8_grow_step [OF assms(2)]] by blast
  then show "p \<in> (grow_step img)\<^sup>* `` {s}" by simp
qed

lemma max_region_reach:
  assumes "grows img s"
  shows "max_region img s ((grow_step img)\<^sup>* `` {s})"
  unfolding max_region_def
proof (intro conjI allI impI)
  show "s \<in> (grow_step img)\<^sup>* `` {s}" by simp
  show "(grow_step img)\<^sup>* `` {s} \<subseteq> growth_set img"
    using reach_grows [OF _ assms] by (auto simp: growth_set_def)
  show "connected8 ((grow_step img)\<^sup>* `` {s})" by (rule connected8_reach)
  fix T assume "s \<in> T \<and> T \<subseteq> growth_set img \<and> connected8 T"
  then show "T \<subseteq> (grow_step img)\<^sup>* `` {s}" using region_in_reach by blast
qed

lemma max_region_least:
  assumes "max_region img s A" "max_region img s B"
  shows "A \<subseteq> B"
proof -
  from assms(1) have a: "s \<in> A \<and> A \<subseteq> growth_set img \<and> connected8 A"
    by (simp add: max_region_def)
  from assms(2) have "\<forall>T. s \<in> T \<and> T \<subseteq> growth_set img \<and> connected8 T \<longrightarrow> T \<subseteq> B"
    by (simp add: max_region_def)
  then have "s \<in> A \<and> A \<subseteq> growth_set img \<and> connected8 A \<longrightarrow> A \<subseteq> B" by (rule spec)
  with a show ?thesis by (rule rev_mp)
qed

lemma max_region_unique:
  assumes "max_region img s A" "max_region img s B"
  shows "A = B"
  using max_region_least [OF assms] max_region_least [OF assms(2,1)] by (rule subset_antisym)

lemma set_remove1_insert: "p \<in> set work \<Longrightarrow> insert p (set (remove1 p work)) = set work"
  by (induction work) auto

lemma work_after_skip:
  assumes "p \<in> set work" "mset work' = mset (remove1 p work)"
  shows "insert p (set work') = set work"
proof -
  from assms(2) have "set work' = set (remove1 p work)" by (rule mset_eq_setD)
  with assms(1) show ?thesis by (simp add: set_remove1_insert)
qed

lemma work_after_visit:
  assumes "p \<in> set work"
    and "mset work' = mset (remove1 p work) + mset (filter (grows img) (neighbours8 p))"
  shows "insert p (set work') = set work \<union> grow_step img `` {p}"
proof -
  from assms(2) have "set work' = set (remove1 p work) \<union> set (filter (grows img) (neighbours8 p))"
    using mset_eq_setD [of work' "remove1 p work @ filter (grows img) (neighbours8 p)"] by simp
  moreover have "set (filter (grows img) (neighbours8 p)) = grow_step img `` {p}"
    by (auto simp: grow_step_def)
  ultimately have "insert p (set work') = insert p (set (remove1 p work)) \<union> grow_step img `` {p}"
    by simp
  with assms(1) show ?thesis by (simp add: set_remove1_insert)
qed

lemma flood_run_keeps:
  assumes "flood_run img work visited result"
  shows "visited \<union> set work \<subseteq> result"
  using assms
proof (induction rule: flood_run.induct)
  case (finished visited)
  show ?case by simp
next
  case (skip p work visited work' result)
  from work_after_skip [OF skip(1,3)] skip(2,5) show ?case by auto
next
  case (visit p work visited work' result)
  from work_after_visit [OF visit(1,3)] visit(5) show ?case by auto
qed

lemma flood_run_sound:
  assumes "flood_run img work visited result"
  shows "result \<subseteq> visited \<union> (grow_step img)\<^sup>* `` set work"
  using assms
proof (induction rule: flood_run.induct)
  case (finished visited)
  show ?case by simp
next
  case (skip p work visited work' result)
  from work_after_skip [OF skip(1,3)] have "set work' \<subseteq> set work" by auto
  then have "(grow_step img)\<^sup>* `` set work' \<subseteq> (grow_step img)\<^sup>* `` set work" by auto
  with skip(5) show ?case by auto
next
  case (visit p work visited work' result)
  let ?R = "grow_step img"
  from work_after_visit [OF visit(1,3)] have w: "set work' \<subseteq> set work \<union> ?R `` {p}" by auto
  have "?R\<^sup>* `` set work' \<subseteq> ?R\<^sup>* `` set work"
  proof
    fix q assume "q \<in> ?R\<^sup>* `` set work'"
    then obtain a where a: "a \<in> set work'" and aq: "(a, q) \<in> ?R\<^sup>*" by auto
    show "q \<in> ?R\<^sup>* `` set work"
    proof (cases "a \<in> set work")
      case True
      with aq show ?thesis by auto
    next
      case False
      with a w have "(p, a) \<in> ?R" by auto
      then have "(p, q) \<in> ?R\<^sup>*" using aq by (rule converse_rtrancl_into_rtrancl)
      with visit(1) show ?thesis by auto
    qed
  qed
  moreover have "p \<in> ?R\<^sup>* `` set work" using visit(1) by auto
  moreover have "result \<subseteq> insert p visited \<union> ?R\<^sup>* `` set work'" by (rule visit(5))
  ultimately show ?case by blast
qed

lemma flood_run_closed:
  assumes "flood_run img work visited result" and "closed_under img (set work) visited"
  shows "closed_under img {} result"
  using assms
proof (induction rule: flood_run.induct)
  case (finished visited)
  then show ?case by simp
next
  case (skip p work visited work' result)
  from work_after_skip [OF skip(1,3)] skip(2) skip(6)
  have "closed_under img (set work') visited"
    unfolding closed_under_def by auto
  then show ?case by (rule skip(5))
next
  case (visit p work visited work' result)
  from work_after_visit [OF visit(1,3)] visit(6)
  have "closed_under img (set work') (insert p visited)"
    unfolding closed_under_def by auto
  then show ?case by (rule visit(5))
qed

lemma flood_run_reach:
  assumes "flood_run img [start] {} result"
  shows "result = (grow_step img)\<^sup>* `` {start}"
proof
  show "result \<subseteq> (grow_step img)\<^sup>* `` {start}"
    using flood_run_sound [OF assms] by simp
next
  have c: "closed_under img {} result"
    by (rule flood_run_closed [OF assms]) (simp add: closed_under_def)
  have s: "start \<in> result" using flood_run_keeps [OF assms] by simp
  show "(grow_step img)\<^sup>* `` {start} \<subseteq> result"
    using closed_rtrancl [OF c _ s] by auto
qed

lemma flood_loop_run: "flood_run img stack visited (flood_loop img stack visited)"
proof (induction img stack visited rule: flood_loop.induct)
  case (1 img visited_pixels)
  show ?case by (simp add: flood_run.finished)
next
  case (2 img pixel stack visited_pixels)
  show ?case
  proof (cases "pixel \<in> visited_pixels")
    case True
    have "flood_run img (pixel # stack) visited_pixels (flood_loop img stack visited_pixels)"
      by (rule flood_run.skip [where p = pixel and work' = stack]) (use True 2(1) in simp_all)
    with True show ?thesis by simp
  next
    case False
    let ?w = "rev (filter (grows img) (neighbours8 pixel)) @ stack"
    have "flood_run img (pixel # stack) visited_pixels
            (flood_loop img ?w (insert pixel visited_pixels))"
      by (rule flood_run.visit [where p = pixel and work' = ?w]) (use False 2(2) in simp_all)
    with False show ?thesis by simp
  qed
qed

text \<open>
  C1, for a seed that passes the growth test. For every image and seed, \<^verbatim>\<open>flood_fill\<close>
  returns the seed together with every pixel reached from it by steps to an 8-neighbour
  whose first channel exceeds 10. When the seed itself passes the growth test this set is
  the maximal 8-connected region of such pixels containing the seed, it is the only such
  region, and it is all of the growth set when that set is one connected blob. Whatever
  the order in which pixels are taken from the work list, every run ends with the set
  that \<^verbatim>\<open>flood_fill\<close> returns.
\<close>

theorem flood_fill_max_region:
  "flood_fill img start None = (grow_step img)\<^sup>* `` {start}
   \<and> (grows img start \<longrightarrow>
        max_region img start (flood_fill img start None)
        \<and> (\<forall>R. max_region img start R \<longrightarrow> R = flood_fill img start None)
        \<and> (connected8 (growth_set img) \<longrightarrow> flood_fill img start None = growth_set img))
   \<and> flood_run img [start] {} (flood_fill img start None)
   \<and> (\<forall>R. flood_run img [start] {} R \<longrightarrow> R = flood_fill img start None)"
proof (intro conjI impI allI)
  show "flood_fill img start None = (grow_step img)\<^sup>* `` {start}"
    by (rule flood_fill_reach)
next
  assume g: "grows img start"
  show m: "max_region img start (flood_fill img start None)"
    unfolding flood_fill_reach by (rule max_region_reach [OF g])
  show "R = flood_fill img start None" if "max_region img start R" for R
    using that m by (rule max_region_unique)
  show "flood_fill img start None = growth_set img" if c: "connected8 (growth_set img)"
  proof
    show "flood_fill img start None \<subseteq> growth_set img"
      using m by (simp add: max_region_def)
    have "start \<in> growth_set img" using g by (simp add: growth_set_def)
    then show "growth_set img \<subseteq> flood_fill img start None"
      unfolding flood_fill_reach using c by (intro region_in_reach) simp_all
  qed
next
  show "flood_run img [start] {} (flood_fill img start None)"
    by (simp only: flood_fill_def option.case flood_loop_run)
next
  fix R assume "flood_run img [start] {} R"
  then show "R = flood_fill img start None"
    unfolding flood_fill_reach by (rule flood_run_reach)
qed

lemma flood_fill_pair:
  "flood_fill (image_of_rows [[[20, 0, 0], [30, 0, 0], [5, 0, 0]]]) (0, 0) None = {(0, 0), (0, 1)}"
  by (simp add: flood_fill_def image_of_rows_def neighbours8_def grows_def in_bounds_def
        insert_commute)

lemma growth_set_pair:
  "growth_set (image_of_rows [[[20, 0, 0], [30, 0, 0], [5, 0, 0]]]) = {(0, 0), (0, 1)}"
proof (rule set_eqI)
  fix p :: pixel
  obtain x y where xy: "p = (x, y)" by (cases p)
  have "grows (image_of_rows [[[20, 0, 0], [30, 0, 0], [5, 0, 0]]]) (x, y)
          \<longleftrightarrow> x = 0 \<and> (y = 0 \<or> y = 1)"
  proof -
    have "0 \<le> y \<and> y < 3 \<longleftrightarrow> y = 0 \<or> y = 1 \<or> y = 2" by auto
    then show ?thesis
      by (auto simp: grows_def in_bounds_def image_of_rows_def)
  qed
  then show "p \<in> growth_set (image_of_rows [[[20, 0, 0], [30, 0, 0], [5, 0, 0]]])
          \<longleftrightarrow> p \<in> {(0, 0), (0, 1)}"
    unfolding xy by (auto simp: growth_set_def)
qed

theorem flood_fill_max_region_witness:
  "grows (image_of_rows [[[20, 0, 0], [30, 0, 0], [5, 0, 0]]]) (0, 0)
   \<and> connected8 (growth_set (image_of_rows [[[20, 0, 0], [30, 0, 0], [5, 0, 0]]]))
   \<and> flood_fill (image_of_rows [[[20, 0, 0], [30, 0, 0], [5, 0, 0]]]) (0, 0) None = {(0, 0), (0, 1)}
   \<and> growth_set (image_of_rows [[[20, 0, 0], [30, 0, 0], [5, 0, 0]]]) = {(0, 0), (0, 1)}
   \<and> max_region (image_of_rows [[[20, 0, 0], [30, 0, 0], [5, 0, 0]]]) (0, 0) {(0, 0), (0, 1)}
   \<and> flood_run (image_of_rows [[[20, 0, 0], [30, 0, 0], [5, 0, 0]]]) [(0, 0)] {} {(0, 0), (0, 1)}"
proof -
  let ?img = "image_of_rows [[[20, 0, 0], [30, 0, 0], [5, 0, 0]]]"
  note t = flood_fill_max_region [of ?img "(0, 0)"]
  have g: "grows ?img (0, 0)"
    by (simp add: grows_def in_bounds_def image_of_rows_def)
  have "connected8 ((grow_step ?img)\<^sup>* `` {(0, 0)})" by (rule connected8_reach)
  then have c: "connected8 (growth_set ?img)"
    unfolding flood_fill_reach [symmetric] flood_fill_pair growth_set_pair .
  have "max_region ?img (0, 0) (flood_fill ?img (0, 0) None)"
    by (rule t [THEN conjunct2, THEN conjunct1, THEN mp, OF g, THEN conjunct1])
  then have m: "max_region ?img (0, 0) {(0, 0), (0, 1)}" unfolding flood_fill_pair .
  have "flood_fill ?img (0, 0) None = growth_set ?img"
    by (rule t [THEN conjunct2, THEN conjunct1, THEN mp, OF g, THEN conjunct2, THEN conjunct2,
                THEN mp, OF c])
  have "flood_run ?img [(0, 0)] {} (flood_fill ?img (0, 0) None)"
    by (rule t [THEN conjunct2, THEN conjunct2, THEN conjunct1])
  then have r: "flood_run ?img [(0, 0)] {} {(0, 0), (0, 1)}" unfolding flood_fill_pair .
  show ?thesis by (intro conjI g c flood_fill_pair growth_set_pair m r)
qed

text \<open>
  A seed that fails the growth test is returned all the same. In the one-row image with
  first channels 20, 5, 20 the middle pixel is nonzero, so \<^verbatim>\<open>find_nonzero_pixel\<close> can draw
  it; seeded there, \<^verbatim>\<open>flood_fill\<close> returns all three pixels, one of them below the
  threshold, and joins the two outer pixels that are not 8-connected to each other.
\<close>

theorem flood_fill_weak_seed:
  "find_nonzero_pixel (image_of_rows [[[20, 0, 0], [5, 0, 0], [20, 0, 0]]]) 1 = Some (0, 1)
   \<and> flood_fill (image_of_rows [[[20, 0, 0], [5, 0, 0], [20, 0, 0]]]) (0, 1) None
       = {(0, 0), (0, 1), (0, 2)}
   \<and> \<not> grows (image_of_rows [[[20, 0, 0], [5, 0, 0], [20, 0, 0]]]) (0, 1)
   \<and> \<not> max_region (image_of_rows [[[20, 0, 0], [5, 0, 0], [20, 0, 0]]]) (0, 1)
         (flood_fill (image_of_rows [[[20, 0, 0], [5, 0, 0], [20, 0, 0]]]) (0, 1) None)"
proof -
  let ?img = "image_of_rows [[[20, 0, 0], [5, 0, 0], [20, 0, 0]]]"
  have f: "find_nonzero_pixel ?img 1 = Some (0, 1)"
    by (simp add: find_nonzero_pixel_def image_of_rows_def Let_def upt_rec)
  have ff: "flood_fill ?img (0, 1) None = {(0, 0), (0, 1), (0, 2)}"
    by (simp add: flood_fill_def image_of_rows_def neighbours8_def grows_def in_bounds_def
          insert_commute)
  have g: "\<not> grows ?img (0, 1)"
    by (simp add: grows_def in_bounds_def image_of_rows_def)
  have "\<not> max_region ?img (0, 1) S" if "(0, 1) \<in> S" for S
    using that g by (auto simp: max_region_def growth_set_def)
  then have m: "\<not> max_region ?img (0, 1) (flood_fill ?img (0, 1) None)"
    unfolding ff by simp
  show ?thesis by (intro conjI f ff g m)
qed

section \<open>Labelling the two cutouts\<close>

lemma os_rename_present:
  "fs src = Some f \<Longrightarrow> src \<noteq> dst \<Longrightarrow> os_rename src dst fs = Inr ((fs(src := None))(dst \<mapsto> f))"
  by (simp add: os_rename_def)

text \<open>
  C2 on the paths that \<^verbatim>\<open>main\<close> passes. \<^verbatim>\<open>main\<close> saves the first cutout at
  \<^verbatim>\<open>JEWEL_LEFT_PATH\<close>, the second at \<^verbatim>\<open>JEWEL_RIGHT_PATH\<close> and calls
  \<^verbatim>\<open>left_and_right(JEWEL_LEFT_PATH, JEWEL_RIGHT_PATH)\<close>. When the second cutout has the
  smaller (or an equal) centroid x, the two renames run right to left and then left to
  right: afterwards no file is at \<^verbatim>\<open>JEWEL_LEFT_PATH\<close>, and \<^verbatim>\<open>JEWEL_RIGHT_PATH\<close> still holds
  the second cutout, the one with the smaller x.
\<close>

theorem left_and_right_loses_left:
  assumes one: "jewel_center fs JEWEL_LEFT_PATH = Inr (Some (cX1, cY1))"
    and two: "jewel_center fs JEWEL_RIGHT_PATH = Inr (Some (cX2, cY2))"
    and order: "cX2 \<le> cX1"
    and paths: "JEWEL_LEFT_PATH \<noteq> JEWEL_RIGHT_PATH"
  shows "left_and_right JEWEL_LEFT_PATH JEWEL_RIGHT_PATH JEWEL_LEFT_PATH JEWEL_RIGHT_PATH fs
           = Inr (fs(JEWEL_LEFT_PATH := None))"
proof -
  from two obtain f where f: "fs JEWEL_RIGHT_PATH = Some f"
    by (cases "fs JEWEL_RIGHT_PATH") (simp_all add: jewel_center_def imread_def)
  let ?fs1 = "(fs(JEWEL_RIGHT_PATH := None))(JEWEL_LEFT_PATH \<mapsto> f)"
  have r1: "os_rename JEWEL_RIGHT_PATH JEWEL_LEFT_PATH fs = Inr ?fs1"
    using f paths by (simp add: os_rename_present)
  have r2: "os_rename JEWEL_LEFT_PATH JEWEL_RIGHT_PATH ?fs1
              = Inr ((?fs1(JEWEL_LEFT_PATH := None))(JEWEL_RIGHT_PATH \<mapsto> f))"
    using paths by (intro os_rename_present) simp_all
  have e: "(?fs1(JEWEL_LEFT_PATH := None))(JEWEL_RIGHT_PATH \<mapsto> f) = fs(JEWEL_LEFT_PATH := None)"
    using f paths by (auto simp: fun_eq_iff)
  have e2: "(fs(JEWEL_LEFT_PATH := None))(JEWEL_RIGHT_PATH \<mapsto> f) = fs(JEWEL_LEFT_PATH := None)"
    using f paths by (auto simp: fun_eq_iff)
  show ?thesis
    using order
    by (simp add: left_and_right_def bind_err_def one two Let_def r1 r2 e e2)
qed

lemma jewel_center_right_blob:
  "fs p = Some (Mat3 (image_of_rows [[[0, 0, 0, 0], [0, 0, 0, 0], [9, 9, 9, 255]]]))
   \<Longrightarrow> jewel_center fs p = Inr (Some (2, 0))"
  by (simp add: jewel_center_def imread_def image_of_rows_def Let_def moment_m00_def
        moment_m10_def moment_m01_def jewel_binary_mask_def threshold_binary_def upt_rec)

lemma jewel_center_left_blob:
  "fs p = Some (Mat3 (image_of_rows [[[9, 9, 9, 255], [0, 0, 0, 0], [0, 0, 0, 0]]]))
   \<Longrightarrow> jewel_center fs p = Inr (Some (0, 0))"
  by (simp add: jewel_center_def imread_def image_of_rows_def Let_def moment_m00_def
        moment_m10_def moment_m01_def jewel_binary_mask_def threshold_binary_def upt_rec)

theorem left_and_right_loses_left_witness:
  "jewel_center
     [''left.png'' \<mapsto> Mat3 (image_of_rows [[[0, 0, 0, 0], [0, 0, 0, 0], [9, 9, 9, 255]]]),
      ''right.png'' \<mapsto> Mat3 (image_of_rows [[[9, 9, 9, 255], [0, 0, 0, 0], [0, 0, 0, 0]]])]
     ''left.png'' = Inr (Some (2, 0))
   \<and> jewel_center
     [''left.png'' \<mapsto> Mat3 (image_of_rows [[[0, 0, 0, 0], [0, 0, 0, 0], [9, 9, 9, 255]]]),
      ''right.png'' \<mapsto> Mat3 (image_of_rows [[[9, 9, 9, 255], [0, 0, 0, 0], [0, 0, 0, 0]]])]
     ''right.png'' = Inr (Some (0, 0))
   \<and> ''left.png'' \<noteq> ''right.png''
   \<and> left_and_right ''left.png'' ''right.png'' ''left.png'' ''right.png''
       [''left.png'' \<mapsto> Mat3 (image_of_rows [[[0, 0, 0, 0], [0, 0, 0, 0], [9, 9, 9, 255]]]),
        ''right.png'' \<mapsto> Mat3 (image_of_rows [[[9, 9, 9, 255], [0, 0, 0, 0], [0, 0, 0, 0]]])]
     = Inr [''right.png'' \<mapsto> Mat3 (image_of_rows [[[9, 9, 9, 255], [0, 0, 0, 0], [0, 0, 0, 0]]])]"
proof -
  let ?a = "Mat3 (image_of_rows [[[0, 0, 0, 0], [0, 0, 0, 0], [9, 9, 9, 255]]])"
  let ?b = "Mat3 (image_of_rows [[[9, 9, 9, 255], [0, 0, 0, 0], [0, 0, 0, 0]]])"
  let ?fs = "[''left.png'' \<mapsto> ?a, ''right.png'' \<mapsto> ?b]"
  have one: "jewel_center ?fs ''left.png'' = Inr (Some (2, 0))"
    by (rule jewel_center_right_blob) simp
  have two: "jewel_center ?fs ''right.png'' = Inr (Some (0, 0))"
    by (rule jewel_center_left_blob) simp
  have paths: "''left.png'' \<noteq> ''right.png''" by simp
  have order: "(0::int) \<le> 2" by simp
  have e: "?fs(''left.png'' := None) = [''right.png'' \<mapsto> ?b]"
    by (auto simp: fun_eq_iff)
  have "left_and_right ''left.png'' ''right.png'' ''left.png'' ''right.png'' ?fs
          = Inr (?fs(''left.png'' := None))"
    by (rule left_and_right_loses_left [OF one two order paths])
  then have r: "left_and_right ''left.png'' ''right.png'' ''left.png'' ''right.png'' ?fs
          = Inr [''right.png'' \<mapsto> ?b]"
    unfolding e .
  show ?thesis by (intro conjI one two paths r)
qed

section \<open>The pipeline on an image without foreground\<close>

lemma find_nonzero_pixel_none:
  assumes "\<forall>r c. r < nrows im \<and> c < ncols im \<longrightarrow> px im r c 0 = 0"
  shows "find_nonzero_pixel im rnd = None"
proof -
  have "[(int r, int c). r \<leftarrow> [0..<nrows im], c \<leftarrow> [0..<ncols im], px im r c 0 > 0] = []"
    using assms by (auto simp: concat_eq_Nil_conv)
  then show ?thesis by (simp add: find_nonzero_pixel_def)
qed

lemma get_contour_empty: "get_contour {} (rows, cols) = Inr {}"
  by (simp add: get_contour_def set_true_def bind_err_def)

lemma foreground_blank_cutout:
  "foreground (saved_cutout (masked_image im {}) (rgba_at (masked_image im {}) 0 0)) = {}"
  by (simp add: foreground_def saved_cutout_def transparent_pixel_def rgba_at_def masked_image_def)

lemma jewel_center_blank_cutout:
  assumes "fs p = Some (Mat3 (saved_cutout (masked_image im {}) (rgba_at (masked_image im {}) 0 0)))"
  shows "jewel_center fs p = Inr None"
proof -
  let ?cut = "saved_cutout (masked_image im {}) (rgba_at (masked_image im {}) 0 0)"
  have "moment_m00 (nrows ?cut) (ncols ?cut) (jewel_binary_mask ?cut) = 0"
    by (simp only: m00_zero_iff foreground_blank_cutout)
  then show ?thesis
    using assms by (simp add: jewel_center_def imread_def Let_def saved_cutout_def)
qed

lemma extract_one_earring_blank:
  assumes "0 < nrows im" "0 < ncols im"
  shows "extract_one_earring im {} path fs
           = Inr (if path \<noteq> [] then
                    fs(path \<mapsto> Mat3 (saved_cutout (masked_image im {}) (rgba_at (masked_image im {}) 0 0)))
                  else fs)"
  using assms by (simp add: extract_one_earring_def Let_def masked_image_def)

lemma extract_the_other_blank:
  assumes "0 < nrows arr" "0 < ncols arr" "3 \<le> nchan arr"
    and "\<forall>r c. r < nrows arr \<and> c < ncols arr \<longrightarrow> px arr r c 0 = 0"
    and "path \<noteq> other"
  shows "\<exists>fs'. extract_the_other arr {} path rnd fs = Inr fs' \<and> fs' other = fs other"
proof -
  let ?m = "complement_image arr {}"
  have "\<forall>r c. r < nrows ?m \<and> c < ncols ?m \<longrightarrow> px ?m r c 0 = 0"
    using assms(4) by (simp add: complement_image_def)
  then have n: "find_nonzero_pixel ?m rnd = None" by (rule find_nonzero_pixel_none)
  have d: "0 < nrows ?m" "0 < ncols ?m" using assms(1,2) by (simp_all add: complement_image_def)
  have "extract_the_other arr {} path rnd fs = extract_one_earring ?m {} path fs"
    using assms(3)
    by (simp add: extract_the_other_def Let_def n get_contour_empty fill_contour_empty bind_err_def)
  then show ?thesis
    using assms(5) by (simp add: extract_one_earring_blank [OF d])
qed

text \<open>
  C8. For an RGB image with at least one pixel in which no pixel has a first channel
  above 0, seed selection finds nothing, both cutouts are saved fully transparent, and
  \<^verbatim>\<open>main\<close> ends in \<^verbatim>\<open>left_and_right\<close> with the \<open>TypeError\<close> of subscripting the \<open>None\<close> that
  \<^verbatim>\<open>jewel_center\<close> returns.
\<close>

theorem main_no_foreground_raises:
  assumes dims: "0 < nrows arr" "0 < ncols arr" and rgb: "nchan arr = 3"
    and blank: "\<forall>r c. r < nrows arr \<and> c < ncols arr \<longrightarrow> px arr r c 0 = 0"
    and paths: "JEWEL_LEFT_PATH \<noteq> []" "JEWEL_LEFT_PATH \<noteq> JEWEL_RIGHT_PATH"
  shows "find_nonzero_pixel arr rnd1 = None
       \<and> main arr rnd1 rnd2 JEWEL_LEFT_PATH JEWEL_RIGHT_PATH fs = Inl TypeError"
proof -
  let ?cut = "saved_cutout (masked_image arr {}) (rgba_at (masked_image arr {}) 0 0)"
  let ?fs1 = "fs(JEWEL_LEFT_PATH \<mapsto> Mat3 ?cut)"
  have n: "find_nonzero_pixel arr rnd1 = None" using blank by (rule find_nonzero_pixel_none)
  have one: "extract_one_earring arr {} JEWEL_LEFT_PATH fs = Inr ?fs1"
    using paths(1) by (simp add: extract_one_earring_blank [OF dims])
  from rgb have "3 \<le> nchan arr" by simp
  from extract_the_other_blank [OF dims this blank paths(2) [symmetric], of rnd2 ?fs1]
  obtain fs2 where two: "extract_the_other arr {} JEWEL_RIGHT_PATH rnd2 ?fs1 = Inr fs2"
    and keep: "fs2 JEWEL_LEFT_PATH = ?fs1 JEWEL_LEFT_PATH" by blast
  from keep have "fs2 JEWEL_LEFT_PATH = Some (Mat3 ?cut)" by simp
  then have "jewel_center fs2 JEWEL_LEFT_PATH = Inr None" by (rule jewel_center_blank_cutout)
  then have lr: "left_and_right JEWEL_LEFT_PATH JEWEL_RIGHT_PATH JEWEL_LEFT_PATH JEWEL_RIGHT_PATH fs2
                   = Inl TypeError"
    by (simp add: left_and_right_def bind_err_def)
  have "main arr rnd1 rnd2 JEWEL_LEFT_PATH JEWEL_RIGHT_PATH fs = Inl TypeError"
    by (simp add: main_def Let_def n get_contour_empty fill_contour_empty bind_err_def one two lr)
  with n show ?thesis by simp
qed

theorem main_no_foreground_raises_witness:
  "find_nonzero_pixel (image_of_rows [[[0, 0, 0], [0, 0, 0]]]) 0 = None
   \<and> ''left.png'' \<noteq> ''right.png''
   \<and> main (image_of_rows [[[0, 0, 0], [0, 0, 0]]]) 0 0 ''left.png'' ''right.png'' Map.empty
       = Inl TypeError"
proof -
  let ?arr = "image_of_rows [[[0, 0, 0], [0, 0, 0]]]"
  have b: "\<forall>r c. r < nrows ?arr \<and> c < ncols ?arr \<longrightarrow> px ?arr r c 0 = 0"
    by (auto simp: image_of_rows_def less_2_cases_iff nth_Cons')
  have d: "0 < nrows ?arr" "0 < ncols ?arr" "nchan ?arr = 3"
    by (simp_all add: image_of_rows_def)
  have p: "''left.png'' \<noteq> []" "''left.png'' \<noteq> ''right.png''" by simp_all
  note t = main_no_foreground_raises [OF d b p, of 0 0 Map.empty]
  show ?thesis by (intro conjI t [THEN conjunct1] t [THEN conjunct2] p(2))
qed

end
